theory Spec2Isabelle
  imports Main "HOL-Library.Word"
begin

section \<open>Data model of the CHub search extension (src/index.js)\<close>

text \<open>
  A JavaScript string is a sequence of UTF-16 code units; \<open>length\<close> and \<open>slice\<close> count
  code units, so a string is a list of 16-bit words. \<open>js\<close> writes an ASCII literal.
\<close>

type_synonym jsstring = "16 word list"

definition js :: "string \<Rightarrow> jsstring" where
  "js s = map of_char s"

text \<open>A Blob: its MIME type and its bytes.\<close>

datatype blob = Blob (blob_type: jsstring) (blob_bytes: "8 word list")

text \<open>
  A node of \<open>searchData.nodes\<close>, with the fields the extension reads. \<open>tagline\<close> may be
  absent (\<open>undefined\<close>).
\<close>

record node =
  fullPath :: jsstring
  name :: jsstring
  tagline :: "jsstring option"
  topics :: "jsstring list"

text \<open>
  The object built by \<open>processCharacters\<close> for one node. \<open>URL.createObjectURL(blob)\<close> gives
  a fresh URL that stands for the blob; the model keeps the blob itself in \<open>url\<close>.
\<close>

record character =
  url :: blob
  description :: jsstring
  cname :: jsstring
  cfullPath :: jsstring
  tags :: "jsstring list"
  author :: jsstring

text \<open>The errors a promise of this module can reject with.\<close>

datatype error = NetworkError | URIError | TypeError | SyntaxError

text \<open>
  The requests the module sends, and what \<open>fetch\<close> gives back: the promise rejects
  (transport failure) or resolves with a response, whatever its HTTP status.
\<close>

datatype request =
    SearchGet jsstring
  | DownloadPost jsstring
  | AvatarGet jsstring
  | ImportPost jsstring jsstring

record response =
  ok :: bool
  status :: nat
  body :: blob
  customContentType :: "jsstring option"
  contentDisposition :: "jsstring option"

datatype fetch_result = Rejected | Resolved response

type_synonym net = "request \<Rightarrow> fetch_result"

datatype jsfile = File (file_data: blob) (file_name: jsstring) (file_type: jsstring)

text \<open>What the list container shows: one card per rendered character, or the placeholder.\<close>

datatype item = Card character | NoCharactersFound

record container =
  inDom :: bool
  items :: "item list"

text \<open>Actions visible outside the module, in the order they happen.\<close>

datatype effect =
    Fetch request
  | UpdateView "character list" bool
  | ToastInfo
  | ToastWarning
  | ProcessDroppedFiles "jsfile list"

text \<open>
  The module-level variables the search pipeline uses. \<open>trace\<close> is a ghost field: the
  log of the effects so far. \<open>characterListContainer\<close> is \<open>None\<close> when the variable is null.
\<close>

record state =
  chubCharacters :: "character list"
  characterListContainer :: "container option"
  isLoading :: bool
  currentPage :: nat
  hasMoreResults :: bool
  trace :: "effect list"

record settings =
  findCount :: nat
  nsfw_setting :: bool

definition defaultSettings :: settings where
  "defaultSettings = \<lparr>findCount = 10, nsfw_setting = False\<rparr>"

definition emit :: "effect \<Rightarrow> state \<Rightarrow> state" where
  "emit e s = s\<lparr>trace := trace s @ [e]\<rparr>"

section \<open>getCharacter\<close>

text \<open>
  POST to the download endpoint; when the response is not ok, GET the avatar endpoint.
  The blob of the last response is returned (reading a body is taken to succeed); the
  status of the second response is never read. A rejected \<open>fetch\<close> rejects \<open>getCharacter\<close>.
  The function runs up to its first \<open>await\<close>, where the POST has left
  (\<open>getCharacterBegin\<close>), and goes on when the response is there (\<open>getCharacterResume\<close>).
\<close>

definition getCharacterBegin :: "jsstring \<Rightarrow> state \<Rightarrow> state" where
  "getCharacterBegin p s = emit (Fetch (DownloadPost p)) s"

definition getCharacterResume :: "net \<Rightarrow> jsstring \<Rightarrow> state \<Rightarrow> state \<times> (error + blob)" where
  "getCharacterResume net p s =
     (case net (DownloadPost p) of
        Rejected \<Rightarrow> (s, Inl NetworkError)
      | Resolved r \<Rightarrow>
          if \<not> ok r then
            (let s2 = emit (Fetch (AvatarGet p)) s in
             case net (AvatarGet p) of
               Rejected \<Rightarrow> (s2, Inl NetworkError)
             | Resolved r' \<Rightarrow> (s2, Inr (body r')))
          else (s, Inr (body r)))"

definition getCharacter :: "net \<Rightarrow> jsstring \<Rightarrow> state \<Rightarrow> state \<times> (error + blob)" where
  "getCharacter net p s = getCharacterResume net p (getCharacterBegin p s)"

section \<open>updateCharacterListInView\<close>

definition updateCharacterListInView :: "character list \<Rightarrow> bool \<Rightarrow> state \<Rightarrow> state" where
  "updateCharacterListInView characters app s =
     (case characterListContainer s of
        None \<Rightarrow> s
      | Some c \<Rightarrow>
          emit (UpdateView characters app)
            (s\<lparr>characterListContainer :=
                 Some (c\<lparr>items := (if app then items c else []) @ map Card characters\<rparr>)\<rparr>))"

section \<open>processCharacters\<close>

text \<open>\<open>xs.slice(a, b)\<close> for \<open>0 \<le> a \<le> b\<close>.\<close>

definition slice :: "nat \<Rightarrow> nat \<Rightarrow> 'a list \<Rightarrow> 'a list" where
  "slice a b xs = take (b - a) (drop a xs)"

definition batchSize :: nat where
  "batchSize = 20"

text \<open>The loop \<open>for (let i = 0; i < nodes.length; i += batchSize)\<close>, from index \<open>i\<close> on.\<close>

function batchesFrom :: "nat \<Rightarrow> 'a list \<Rightarrow> 'a list list" where
  "batchesFrom i nodes =
     (if i < length nodes
      then slice i (i + batchSize) nodes # batchesFrom (i + batchSize) nodes
      else [])"
  by pat_completeness auto
termination
  by (relation "measure (\<lambda>(i, nodes). length nodes - i)") (auto simp: batchSize_def)

definition batches :: "'a list \<Rightarrow> 'a list list" where
  "batches nodes = batchesFrom 0 nodes"

text \<open>\<open>str.split('/')[0]\<close>: the text before the first slash.\<close>

definition firstSegment :: "jsstring \<Rightarrow> jsstring" where
  "firstSegment p = takeWhile (\<lambda>c. c \<noteq> of_char CHR ''/'') p"

text \<open>\<open>node.tagline || "Description here..."\<close>: an absent or empty tagline is falsy.\<close>

definition descriptionOf :: "node \<Rightarrow> jsstring" where
  "descriptionOf n =
     (case tagline n of
        None \<Rightarrow> js ''Description here...''
      | Some t \<Rightarrow> if t = [] then js ''Description here...'' else t)"

definition makeCharacter :: "node \<Rightarrow> blob \<Rightarrow> character" where
  "makeCharacter n b =
     \<lparr>url = b, description = descriptionOf n, cname = name n, cfullPath = fullPath n,
      tags = topics n, author = firstSegment (fullPath n)\<rparr>"

text \<open>
  \<open>batch.map(async (node) => ...)\<close>: each callback runs to the first \<open>await\<close> of its
  \<open>getCharacter\<close>, so the POSTs of the whole batch leave first, in node order
  (\<open>beginAll\<close>). Then the callbacks go on as their responses arrive; the model takes them in
  node order (\<open>resumeAll\<close>). Every callback runs to its end, whether or not another one
  rejects.
\<close>

fun beginAll :: "node list \<Rightarrow> state \<Rightarrow> state" where
  "beginAll [] s = s"
| "beginAll (n # ns) s = beginAll ns (getCharacterBegin (fullPath n) s)"

fun resumeAll :: "net \<Rightarrow> node list \<Rightarrow> state \<Rightarrow> state \<times> (error + character) list" where
  "resumeAll net [] s = (s, [])"
| "resumeAll net (n # ns) s =
     (case getCharacterResume net (fullPath n) s of
        (s1, r) \<Rightarrow>
          (case resumeAll net ns s1 of
             (s2, rs) \<Rightarrow>
               (s2, (case r of Inl e \<Rightarrow> Inl e | Inr b \<Rightarrow> Inr (makeCharacter n b)) # rs)))"

definition startAll :: "net \<Rightarrow> node list \<Rightarrow> state \<Rightarrow> state \<times> (error + character) list" where
  "startAll net batch s = resumeAll net batch (beginAll batch s)"

text \<open>\<open>Promise.all\<close>: rejects as soon as one member rejects, else the results in order.\<close>

fun promiseAll :: "(error + 'a) list \<Rightarrow> error + 'a list" where
  "promiseAll [] = Inr []"
| "promiseAll (Inl e # rs) = Inl e"
| "promiseAll (Inr x # rs) =
     (case promiseAll rs of Inl e \<Rightarrow> Inl e | Inr xs \<Rightarrow> Inr (x # xs))"

text \<open>The loop \<open>for (const batch of batches)\<close>, with \<open>processedCharacters\<close> so far.\<close>

fun processBatches ::
  "net \<Rightarrow> node list list \<Rightarrow> character list \<Rightarrow> state \<Rightarrow> state \<times> (error + character list)" where
  "processBatches net [] processed s = (s, Inr processed)"
| "processBatches net (batch # rest) processed s =
     (case startAll net batch s of
        (s1, promises) \<Rightarrow>
          (case promiseAll promises of
             Inl e \<Rightarrow> (s1, Inl e)
           | Inr results \<Rightarrow>
               (let processed' = processed @ results;
                    s2 = (if characterListContainer s1 \<noteq> None
                          then updateCharacterListInView processed' True s1 else s1)
                in processBatches net rest processed' s2)))"

definition processCharacters :: "net \<Rightarrow> node list \<Rightarrow> state \<Rightarrow> state \<times> (error + character list)" where
  "processCharacters net nodes s = processBatches net (batches nodes) [] s"

section \<open>fetchCharactersBySearch\<close>

text \<open>
  The options object of a search. \<open>searchTerm\<close>, \<open>sort\<close> and \<open>page\<close> may be absent; the two
  tag lists are arrays of strings.
\<close>

record options =
  searchTerm :: "jsstring option"
  includeTags :: "jsstring list"
  excludeTags :: "jsstring list"
  nsfw :: bool
  sort_by :: "jsstring option"
  page :: "nat option"

definition API_ENDPOINT_SEARCH :: jsstring where
  "API_ENDPOINT_SEARCH = js ''https://api.chub.ai/api/characters/search''"

text \<open>A non-negative integer in a template literal: its decimal digits.\<close>

function showNat :: "nat \<Rightarrow> jsstring" where
  "showNat n =
     (if n < 10 then [of_nat (48 + n)]
      else showNat (n div 10) @ [of_nat (48 + n mod 10)])"
  by pat_completeness auto
termination
  by (relation "measure (\<lambda>n. n)") auto

definition showBool :: "bool \<Rightarrow> jsstring" where
  "showBool b = (if b then js ''true'' else js ''false'')"

text \<open>\<open>tags.join(',')\<close>.\<close>

fun join :: "jsstring list \<Rightarrow> jsstring" where
  "join [] = []"
| "join [t] = t"
| "join (t # ts) = t @ of_char CHR '','' # join ts"

text \<open>
  What happens to \<open>includeTags\<close> and to \<open>excludeTags\<close>: the empty strings are filtered out;
  if something is left, the value sent is the first 100 code units of the joined string,
  else no parameter is sent.
\<close>

definition tagParam :: "jsstring list \<Rightarrow> jsstring option" where
  "tagParam ts =
     (let ts' = filter (\<lambda>tag. length tag > 0) ts
      in if length ts' > 0 then Some (slice 0 100 (join ts')) else None)"

text \<open>
  The URL of the search request. \<open>encodeURIComponent\<close> is the platform's: it is the
  parameter \<open>enc\<close>, and it throws a URIError on a string with a lone surrogate.
\<close>

text \<open>\<open>searchTerm ? `search=${encodeURIComponent(searchTerm)}&` : ''\<close>.\<close>

definition searchTermPart ::
  "(jsstring \<Rightarrow> error + jsstring) \<Rightarrow> jsstring option \<Rightarrow> error + jsstring" where
  "searchTermPart enc t =
     (case t of
        None \<Rightarrow> Inr []
      | Some t' \<Rightarrow>
          if t' = [] then Inr []
          else (case enc t' of
                  Inl e \<Rightarrow> Inl e
                | Inr x \<Rightarrow> Inr (js ''search='' @ x @ js ''&'')))"

text \<open>The template literal that starts the URL, \<open>term\<close> being the search term part.\<close>

definition baseUrl :: "settings \<Rightarrow> options \<Rightarrow> jsstring \<Rightarrow> jsstring" where
  "baseUrl cfg opts term =
     API_ENDPOINT_SEARCH @ js ''?'' @ term
     @ js ''first='' @ showNat (findCount cfg)
     @ js ''&page='' @ showNat (case page opts of None \<Rightarrow> 1 | Some p \<Rightarrow> p)
     @ js ''&sort='' @ (case sort_by opts of
                         None \<Rightarrow> js ''download_count''
                       | Some k \<Rightarrow> if k = [] then js ''download_count'' else k)
     @ js ''&asc='' @ showBool False
     @ js ''&venus=true&include_forks='' @ showBool True
     @ js ''&nsfw='' @ showBool (nsfw opts \<or> nsfw_setting cfg)
     @ js ''&require_images='' @ showBool False
     @ js ''&require_custom_prompt='' @ showBool False"

text \<open>
  The block that the function has twice, for \<open>includeTags\<close> with \<open>key\<close> \<open>&tags=\<close> and for
  \<open>excludeTags\<close> with \<open>key\<close> \<open>&exclude_tags=\<close>.
\<close>

definition appendTags ::
  "(jsstring \<Rightarrow> error + jsstring) \<Rightarrow> jsstring \<Rightarrow> jsstring list \<Rightarrow> jsstring \<Rightarrow> error + jsstring" where
  "appendTags enc key ts u =
     (case tagParam ts of
        None \<Rightarrow> Inr u
      | Some v \<Rightarrow> (case enc v of Inl e \<Rightarrow> Inl e | Inr x \<Rightarrow> Inr (u @ key @ x)))"

definition buildUrl ::
  "(jsstring \<Rightarrow> error + jsstring) \<Rightarrow> settings \<Rightarrow> options \<Rightarrow> error + jsstring" where
  "buildUrl enc cfg opts =
     (case searchTermPart enc (searchTerm opts) of
        Inl e \<Rightarrow> Inl e
      | Inr term \<Rightarrow>
          (case appendTags enc (js ''&tags='') (includeTags opts) (baseUrl cfg opts term) of
             Inl e \<Rightarrow> Inl e
           | Inr u1 \<Rightarrow> appendTags enc (js ''&exclude_tags='') (excludeTags opts) u1))"

text \<open>
  What \<open>await fetch(url)\<close>, \<open>await searchResponse.json()\<close> and \<open>searchData.nodes\<close> give
  together. \<open>SearchFailed\<close>: one of the two awaits rejects (a rejected fetch, a body that
  is not JSON), before the list is touched. \<open>SearchNoNodes\<close>: the body is parsed and has
  no \<open>nodes\<close>, so \<open>searchData.nodes.length\<close> throws a TypeError, after the list has been
  emptied. \<open>SearchNodes\<close>: the node list. The status of the response is not read.
\<close>

datatype search_result = SearchFailed error | SearchNoNodes | SearchNodes "node list"

text \<open>The part of \<open>fetchCharactersBySearch\<close> after the search response has arrived.\<close>

definition fetchResume ::
  "net \<Rightarrow> search_result \<Rightarrow> state \<Rightarrow> state \<times> (error + character list)" where
  "fetchResume net sr s =
     (case sr of
        SearchFailed e \<Rightarrow> (s, Inl e)
      | SearchNoNodes \<Rightarrow> (s\<lparr>chubCharacters := []\<rparr>, Inl TypeError)
      | SearchNodes nodes \<Rightarrow>
          (let s1 = s\<lparr>chubCharacters := []\<rparr>
           in if length nodes = 0 then (s1, Inr (chubCharacters s1))
              else (case processCharacters net nodes s1 of
                      (s2, Inl e) \<Rightarrow> (s2, Inl e)
                    | (s2, Inr cs) \<Rightarrow> (s2\<lparr>chubCharacters := cs\<rparr>, Inr cs))))"

definition fetchCharactersBySearch ::
  "(jsstring \<Rightarrow> error + jsstring) \<Rightarrow> settings \<Rightarrow> net \<Rightarrow> (jsstring \<Rightarrow> search_result) \<Rightarrow>
   options \<Rightarrow> state \<Rightarrow> state \<times> (error + character list)" where
  "fetchCharactersBySearch enc cfg net search opts s =
     (case buildUrl enc cfg opts of
        Inl e \<Rightarrow> (s, Inl e)
      | Inr u \<Rightarrow> fetchResume net (search u) (emit (Fetch (SearchGet u)) s))"

section \<open>searchCharacters and executeCharacterSearch\<close>

text \<open>
  \<open>searchCharacters\<close> first drops the reference to a container that is no longer in the
  document. (The CSS class it toggles is not part of the model.)
\<close>

definition dropDetached :: "state \<Rightarrow> state" where
  "dropDetached s =
     (case characterListContainer s of
        None \<Rightarrow> s
      | Some c \<Rightarrow> if \<not> inDom c then s\<lparr>characterListContainer := None\<rparr> else s)"

definition searchCharacters ::
  "(jsstring \<Rightarrow> error + jsstring) \<Rightarrow> settings \<Rightarrow> net \<Rightarrow> (jsstring \<Rightarrow> search_result) \<Rightarrow>
   options \<Rightarrow> state \<Rightarrow> state \<times> (error + character list)" where
  "searchCharacters enc cfg net search opts s =
     fetchCharactersBySearch enc cfg net search opts (dropDetached s)"

text \<open>
  \<open>executeCharacterSearch\<close> runs synchronously up to \<open>await fetch(url)\<close> (\<open>execBegin\<close>) and
  continues when the search response is there (\<open>execResume\<close>).
\<close>

datatype begun = Returned | Failed error | Issued jsstring

definition resetPagination :: "bool \<Rightarrow> state \<Rightarrow> state" where
  "resetPagination app s =
     (if \<not> app then s\<lparr>currentPage := 1, hasMoreResults := True\<rparr> else s)"

definition execBegin ::
  "(jsstring \<Rightarrow> error + jsstring) \<Rightarrow> settings \<Rightarrow> options \<Rightarrow> bool \<Rightarrow> state \<Rightarrow> state \<times> begun" where
  "execBegin enc cfg opts app s =
     (let s1 = resetPagination app s
      in if \<not> hasMoreResults s1 then (s1, Returned)
         else (let s2 = dropDetached s1
               in case buildUrl enc cfg (opts\<lparr>page := Some (currentPage s2)\<rparr>) of
                    Inl e \<Rightarrow> (s2, Failed e)
                  | Inr u \<Rightarrow> (emit (Fetch (SearchGet u)) s2, Issued u)))"

definition noMore :: "state \<Rightarrow> state \<times> (error + unit)" where
  "noMore s = (s\<lparr>hasMoreResults := False, isLoading := False\<rparr>, Inr ())"

definition execResume ::
  "settings \<Rightarrow> net \<Rightarrow> bool \<Rightarrow> search_result \<Rightarrow> state \<Rightarrow> state \<times> (error + unit)" where
  "execResume cfg net app sr s =
     (case fetchResume net sr s of
        (s1, Inl e) \<Rightarrow> (s1, Inl e)
      | (s1, Inr characters) \<Rightarrow>
          if length characters > 0 then
            (let s2 = updateCharacterListInView characters app s1;
                 s3 = s2\<lparr>hasMoreResults := (length characters = findCount cfg)\<rparr>
             in (s3\<lparr>isLoading := False\<rparr>, Inr ()))
          else if \<not> app then
            (case characterListContainer s1 of
               None \<Rightarrow> (s1, Inl TypeError)
             | Some c \<Rightarrow>
                 noMore (s1\<lparr>characterListContainer := Some (c\<lparr>items := [NoCharactersFound]\<rparr>)\<rparr>))
          else noMore s1)"

definition executeCharacterSearch ::
  "(jsstring \<Rightarrow> error + jsstring) \<Rightarrow> settings \<Rightarrow> net \<Rightarrow> (jsstring \<Rightarrow> search_result) \<Rightarrow>
   options \<Rightarrow> bool \<Rightarrow> state \<Rightarrow> state \<times> (error + unit)" where
  "executeCharacterSearch enc cfg net search opts app s =
     (case execBegin enc cfg opts app s of
        (s1, Returned) \<Rightarrow> (s1, Inr ())
      | (s1, Failed e) \<Rightarrow> (s1, Inl e)
      | (s1, Issued u) \<Rightarrow> execResume cfg net app (search u) s1)"

section \<open>The handlers that start a search\<close>

text \<open>
  A search is asynchronous: between its start and the arrival of the search response
  other handlers run. A system state is the module state together with the searches in
  flight; each remembers whether its caller set the \<open>isLoading\<close> guard and attached a
  \<open>finally\<close> that clears it (\<open>scrollHandler\<close>, \<open>executeCharacterSearchDebounced\<close>) or not
  (\<open>handleSearch\<close>), and its \<open>append\<close> argument. The continuation of a search, from the
  search response to the end, is taken as one step.
\<close>

record op =
  op_guarded :: bool
  op_append :: bool

record system =
  now :: state
  pending :: "op list"

datatype event =
    HandleSearch options
  | Debounced options
  | Scroll bool options
  | Complete nat search_result

text \<open>The \<open>.finally(() => isLoading = false)\<close> of a guarded caller.\<close>

definition runFinally :: "bool \<Rightarrow> state \<Rightarrow> state" where
  "runFinally guarded s = (if guarded then s\<lparr>isLoading := False\<rparr> else s)"

text \<open>
  The call \<open>executeCharacterSearch(options, append)\<close> up to its first suspension. When it
  ends at once (early return, or an exception while the URL is built) the \<open>finally\<close> of a
  guarded caller runs at once.
\<close>

definition launch ::
  "(jsstring \<Rightarrow> error + jsstring) \<Rightarrow> settings \<Rightarrow> bool \<Rightarrow> bool \<Rightarrow> options \<Rightarrow> system \<Rightarrow> system" where
  "launch enc cfg guarded app opts sys =
     (case execBegin enc cfg opts app (now sys) of
        (s1, Issued u) \<Rightarrow>
          sys\<lparr>now := s1, pending := pending sys @ [\<lparr>op_guarded = guarded, op_append = app\<rparr>]\<rparr>
      | (s1, Returned) \<Rightarrow> sys\<lparr>now := runFinally guarded s1\<rparr>
      | (s1, Failed e) \<Rightarrow> sys\<lparr>now := runFinally guarded s1\<rparr>)"

text \<open>
  \<open>handleSearch\<close>, for an event that passes its key filter; \<open>opts\<close> are the values read
  from the inputs. It clears \<open>isLoading\<close> and calls \<open>executeCharacterSearch\<close> directly.
\<close>

definition handleSearch ::
  "(jsstring \<Rightarrow> error + jsstring) \<Rightarrow> settings \<Rightarrow> options \<Rightarrow> system \<Rightarrow> system" where
  "handleSearch enc cfg opts sys =
     launch enc cfg False False (opts\<lparr>page := Some 1\<rparr>)
       (sys\<lparr>now := (now sys)\<lparr>currentPage := 1, hasMoreResults := True, isLoading := False\<rparr>\<rparr>)"

text \<open>
  The callback of \<open>executeCharacterSearchDebounced\<close>, when the debounce timer fires. (The
  source defines it and no handler calls it.)
\<close>

definition executeCharacterSearchDebounced ::
  "(jsstring \<Rightarrow> error + jsstring) \<Rightarrow> settings \<Rightarrow> options \<Rightarrow> system \<Rightarrow> system" where
  "executeCharacterSearchDebounced enc cfg opts sys =
     (if \<not> isLoading (now sys)
      then launch enc cfg True False opts (sys\<lparr>now := (now sys)\<lparr>isLoading := True\<rparr>\<rparr>)
      else sys)"

text \<open>
  The callback of \<open>scrollHandler\<close>. \<open>nearBottom\<close> is the outcome of
  \<open>bottomOffset < threshold\<close>; reading the geometry of a null container throws.
\<close>

definition scrollHandler ::
  "(jsstring \<Rightarrow> error + jsstring) \<Rightarrow> settings \<Rightarrow> bool \<Rightarrow> options \<Rightarrow> system \<Rightarrow> system" where
  "scrollHandler enc cfg nearBottom params sys =
     (let s = now sys
      in if isLoading s \<or> \<not> hasMoreResults s then sys
         else (case characterListContainer s of
                 None \<Rightarrow> sys
               | Some c \<Rightarrow>
                   if nearBottom then
                     (let s1 = s\<lparr>isLoading := True\<rparr>;
                          params' = params\<lparr>page := Some (currentPage s1 + 1)\<rparr>;
                          s2 = s1\<lparr>currentPage := currentPage s1 + 1\<rparr>
                      in launch enc cfg True True params' (sys\<lparr>now := s2\<rparr>))
                   else sys))"

text \<open>The search in flight at position \<open>i\<close> gets its response and runs to its end.\<close>

definition completeOp :: "settings \<Rightarrow> net \<Rightarrow> nat \<Rightarrow> search_result \<Rightarrow> system \<Rightarrow> system" where
  "completeOp cfg net i sr sys =
     (if i < length (pending sys) then
        (let p = pending sys ! i
         in case execResume cfg net (op_append p) sr (now sys) of
              (s1, r) \<Rightarrow>
                sys\<lparr>now := runFinally (op_guarded p) s1,
                    pending := take i (pending sys) @ drop (Suc i) (pending sys)\<rparr>)
      else sys)"

fun step ::
  "(jsstring \<Rightarrow> error + jsstring) \<Rightarrow> settings \<Rightarrow> net \<Rightarrow> event \<Rightarrow> system \<Rightarrow> system" where
  "step enc cfg net (HandleSearch opts) sys = handleSearch enc cfg opts sys"
| "step enc cfg net (Debounced opts) sys = executeCharacterSearchDebounced enc cfg opts sys"
| "step enc cfg net (Scroll nearBottom params) sys = scrollHandler enc cfg nearBottom params sys"
| "step enc cfg net (Complete i sr) sys = completeOp cfg net i sr sys"

fun run ::
  "(jsstring \<Rightarrow> error + jsstring) \<Rightarrow> settings \<Rightarrow> net \<Rightarrow> event list \<Rightarrow> system \<Rightarrow> system" where
  "run enc cfg net [] sys = sys"
| "run enc cfg net (e # es) sys = run enc cfg net es (step enc cfg net e sys)"

text \<open>The module as loaded: the initial values of its variables, no search in flight.\<close>

definition initialState :: "container option \<Rightarrow> state" where
  "initialState c =
     \<lparr>chubCharacters = [], characterListContainer = c, isLoading = False,
      currentPage = 1, hasMoreResults = True, trace = []\<rparr>"

definition initialSystem :: "container option \<Rightarrow> system" where
  "initialSystem c = \<lparr>now = initialState c, pending = []\<rparr>"

section \<open>downloadCharacter\<close>

text \<open>\<open>String.prototype.trim\<close>: white space and line terminators, at both ends.\<close>

definition isWhiteSpace :: "16 word \<Rightarrow> bool" where
  "isWhiteSpace c =
     (c \<in> {0x9, 0xA, 0xB, 0xC, 0xD, 0x20, 0xA0, 0x1680, 0x2028, 0x2029, 0x202F, 0x205F,
           0x3000, 0xFEFF} \<or> (0x2000 \<le> c \<and> c \<le> 0x200A))"

definition trim :: "jsstring \<Rightarrow> jsstring" where
  "trim str = rev (dropWhile isWhiteSpace (rev (dropWhile isWhiteSpace str)))"

text \<open>
  \<open>str.split(sep)\<close> for a non-empty separator: \<open>cur\<close> is the current piece, reversed.
\<close>

function splitAux :: "'a list \<Rightarrow> 'a list \<Rightarrow> 'a list \<Rightarrow> 'a list list" where
  "splitAux sep cur xs =
     (if xs = [] then [rev cur]
      else if sep \<noteq> [] \<and> take (length sep) xs = sep
           then rev cur # splitAux sep [] (drop (length sep) xs)
           else splitAux sep (hd xs # cur) (tl xs))"
  by pat_completeness auto
termination
  by (relation "measure (\<lambda>(sep, cur, xs). length xs)") auto

definition splitOn :: "'a list \<Rightarrow> 'a list \<Rightarrow> 'a list list" where
  "splitOn sep str = splitAux sep [] str"

text \<open>
  \<open>headers.get('Content-Disposition').split('filename=')[1].replace(/"/g, '')\<close>: a
  TypeError when the header is missing (null) or has no \<open>filename=\<close> (undefined).
\<close>

definition fileNameOf :: "jsstring option \<Rightarrow> error + jsstring" where
  "fileNameOf h =
     (case h of
        None \<Rightarrow> Inl TypeError
      | Some d \<Rightarrow>
          (case splitOn (js ''filename='') d of
             _ # x # _ \<Rightarrow> Inr (filter (\<lambda>c. c \<noteq> of_char CHR 0x22) x)
           | _ \<Rightarrow> Inl TypeError))"

definition importUUID :: jsstring where
  "importUUID = js ''/api/content/importUUID''"

definition import_custom :: jsstring where
  "import_custom = js ''/import_custom''"

text \<open>\<open>ImportPost endpoint url\<close> is the POST of \<open>JSON.stringify({ url })\<close> to the endpoint.\<close>

definition downloadCharacter :: "net \<Rightarrow> jsstring \<Rightarrow> state \<Rightarrow> state \<times> (error + unit)" where
  "downloadCharacter net input s =
     (let u = trim input;
          s1 = emit (Fetch (ImportPost importUUID u)) s
      in case net (ImportPost importUUID u) of
           Rejected \<Rightarrow> (s1, Inl NetworkError)
         | Resolved r1 \<Rightarrow>
             (case (if \<not> ok r1
                    then (emit (Fetch (ImportPost import_custom u)) s1,
                          net (ImportPost import_custom u))
                    else (s1, Resolved r1)) of
                (s2, Rejected) \<Rightarrow> (s2, Inl NetworkError)
              | (s2, Resolved r) \<Rightarrow>
                  if \<not> ok r then (emit ToastInfo s2, Inr ())
                  else (case fileNameOf (contentDisposition r) of
                          Inl e \<Rightarrow> (s2, Inl e)
                        | Inr fileName \<Rightarrow>
                            (let f = File (body r) fileName (blob_type (body r))
                             in if customContentType r = Some (js ''character'')
                                then (emit (ProcessDroppedFiles [f]) s2, Inr ())
                                else (emit ToastWarning s2, Inr ())))))"

section \<open>Notions used in the statements\<close>

text \<open>
  The result of \<open>getCharacter\<close> and the requests it sends, as functions of the network
  alone (lemma \<open>getCharacter_eq\<close> below).
\<close>

definition fetchOutcome :: "net \<Rightarrow> jsstring \<Rightarrow> error + blob" where
  "fetchOutcome net p =
     (case net (DownloadPost p) of
        Rejected \<Rightarrow> Inl NetworkError
      | Resolved r \<Rightarrow>
          if ok r then Inr (body r)
          else (case net (AvatarGet p) of
                  Rejected \<Rightarrow> Inl NetworkError
                | Resolved r' \<Rightarrow> Inr (body r')))"

definition requestsOf :: "net \<Rightarrow> jsstring \<Rightarrow> effect list" where
  "requestsOf net p =
     (case net (DownloadPost p) of
        Rejected \<Rightarrow> [Fetch (DownloadPost p)]
      | Resolved r \<Rightarrow>
          if ok r then [Fetch (DownloadPost p)]
          else [Fetch (DownloadPost p), Fetch (AvatarGet p)])"

text \<open>The requests of one batch: its POSTs, then the GETs of the nodes whose POST was not ok.\<close>

definition backupRequest :: "net \<Rightarrow> jsstring \<Rightarrow> effect list" where
  "backupRequest net p =
     (case net (DownloadPost p) of
        Rejected \<Rightarrow> []
      | Resolved r \<Rightarrow> if ok r then [] else [Fetch (AvatarGet p)])"

definition batchRequests :: "net \<Rightarrow> node list \<Rightarrow> effect list" where
  "batchRequests net ns =
     map (\<lambda>n. Fetch (DownloadPost (fullPath n))) ns @
     concat (map (\<lambda>n. backupRequest net (fullPath n)) ns)"

definition outcome :: "net \<Rightarrow> node \<Rightarrow> error + character" where
  "outcome net n =
     (case fetchOutcome net (fullPath n) of Inl e \<Rightarrow> Inl e | Inr b \<Rightarrow> Inr (makeCharacter n b))"

text \<open>A fetch succeeded: it resolved with an ok response.\<close>

definition succeeded :: "fetch_result \<Rightarrow> bool" where
  "succeeded fr = (case fr of Rejected \<Rightarrow> False | Resolved r \<Rightarrow> ok r)"

text \<open>The character lists handed to the view so far, in order.\<close>

definition deliveries :: "state \<Rightarrow> character list list" where
  "deliveries s = concat (map (\<lambda>e. case e of UpdateView cs a \<Rightarrow> [cs] | _ \<Rightarrow> []) (trace s))"

text \<open>The requests sent so far, in order.\<close>

definition requests :: "state \<Rightarrow> request list" where
  "requests s = concat (map (\<lambda>e. case e of Fetch r \<Rightarrow> [r] | _ \<Rightarrow> []) (trace s))"


subsection \<open>Example values\<close>

definition plainResponse :: "bool \<Rightarrow> nat \<Rightarrow> 8 word list \<Rightarrow> response" where
  "plainResponse k st bytes =
     \<lparr>ok = k, status = st, body = Blob [] bytes, customContentType = None,
      contentDisposition = None\<rparr>"

text \<open>A catalog where the download endpoint answers 500 and the avatar endpoint 404.\<close>

definition bothFail :: net where
  "bothFail req =
     (case req of
        DownloadPost p \<Rightarrow> Resolved (plainResponse False 500 [0x35])
      | AvatarGet p \<Rightarrow> Resolved (plainResponse False 404 [0x34])
      | _ \<Rightarrow> Rejected)"

definition exampleNode :: "nat \<Rightarrow> node" where
  "exampleNode k =
     \<lparr>fullPath = js ''user/'' @ showNat k, name = showNat k, tagline = None, topics = []\<rparr>"

definition exampleNodes :: "nat \<Rightarrow> node list" where
  "exampleNodes n = map exampleNode [0..<n]"

definition okNet :: net where
  "okNet req = Resolved (plainResponse True 200 [0x2A])"

text \<open>What \<open>okNet\<close> makes of a node.\<close>

definition exampleCharacter :: "node \<Rightarrow> character" where
  "exampleCharacter n = makeCharacter n (Blob [] [0x2A])"

definition someContainer :: container where
  "someContainer = \<lparr>inDom = True, items = []\<rparr>"

definition goodNode :: node where
  "goodNode = \<lparr>fullPath = js ''good'', name = js ''g'', tagline = None, topics = []\<rparr>"

definition badNode :: node where
  "badNode = \<lparr>fullPath = js ''bad'', name = js ''b'', tagline = None, topics = []\<rparr>"

definition flakyNet :: net where
  "flakyNet req =
     (case req of
        DownloadPost p \<Rightarrow>
          if p = js ''bad'' then Resolved (plainResponse False 500 [])
          else Resolved (plainResponse True 200 [0x2A])
      | _ \<Rightarrow> Rejected)"

definition statusNet :: net where
  "statusNet req =
     (case req of
        DownloadPost p \<Rightarrow>
          if p = js ''bad'' then Resolved (plainResponse False 500 [0x35])
          else Resolved (plainResponse True 200 [0x2A])
      | AvatarGet p \<Rightarrow> Resolved (plainResponse False 404 [0x34])
      | _ \<Rightarrow> Rejected)"

definition exampleOptions :: options where
  "exampleOptions =
     \<lparr>searchTerm = Some (js ''elf''), includeTags = [js ''fantasy'', []], excludeTags = [],
      nsfw = False, sort_by = None, page = Some 1\<rparr>"

definition exhausted :: state where
  "exhausted =
     \<lparr>chubCharacters = [makeCharacter badNode (Blob [] [0x2A])],
      characterListContainer = Some someContainer, isLoading = False, currentPage = 3,
      hasMoreResults = False, trace = []\<rparr>"

definition pageOne :: state where
  "pageOne =
     \<lparr>chubCharacters = [makeCharacter badNode (Blob [] [0x2A])],
      characterListContainer =
        Some \<lparr>inDom = True, items = [Card (makeCharacter badNode (Blob [] [0x2A]))]\<rparr>,
      isLoading = False, currentPage = 2, hasMoreResults = True, trace = []\<rparr>"

definition longTag :: jsstring where
  "longTag = replicate 99 (of_char CHR ''a'')"

definition characterResponse :: "jsstring option \<Rightarrow> response" where
  "characterResponse disposition =
     \<lparr>ok = True, status = 200, body = Blob (js ''image/png'') [0x89, 0x50],
      customContentType = Some (js ''character''), contentDisposition = disposition\<rparr>"

definition elfDisposition :: jsstring where
  "elfDisposition = js ''attachment; filename='' @ [0x22] @ js ''elf.png'' @ [0x22]"

definition importNet :: "jsstring option \<Rightarrow> net" where
  "importNet disposition req =
     (case req of
        ImportPost endpoint u \<Rightarrow>
          if endpoint = importUUID then Resolved (plainResponse False 500 [])
          else Resolved (characterResponse disposition)
      | _ \<Rightarrow> Rejected)"

text \<open>A catalog whose search request is rejected, and one that returns \<open>goodNode\<close>.\<close>

definition failingSearch :: "jsstring \<Rightarrow> search_result" where
  "failingSearch u = SearchFailed NetworkError"

definition goodSearch :: "jsstring \<Rightarrow> search_result" where
  "goodSearch u = SearchNodes [goodNode]"

text \<open>The primary endpoint answers 500 and the request to the legacy endpoint is rejected.\<close>

definition legacyDown :: net where
  "legacyDown req =
     (case req of
        ImportPost endpoint u \<Rightarrow>
          if endpoint = importUUID then Resolved (plainResponse False 500 []) else Rejected
      | _ \<Rightarrow> Rejected)"

text \<open>A scroll load is in flight on a fresh list: \<open>isLoading\<close> is true.\<close>

definition loadingMore :: system where
  "loadingMore =
     scrollHandler Inr defaultSettings True exampleOptions (initialSystem (Some someContainer))"


section \<open>Properties\<close>

declare batchesFrom.simps [simp del] showNat.simps [simp del] splitAux.simps [simp del]

subsection \<open>getCharacter\<close>

lemma getCharacter_eq:
  "getCharacter net p s = (s\<lparr>trace := trace s @ requestsOf net p\<rparr>, fetchOutcome net p)"
  by (simp add: getCharacter_def getCharacterBegin_def getCharacterResume_def fetchOutcome_def
      requestsOf_def emit_def Let_def split: fetch_result.splits)

text \<open>
  C9. When the download POST gets a response that is not ok, \<open>getCharacter\<close> sends the
  avatar GET and resolves with the blob of whatever response that gets, ok or not: two
  failure statuses give a blob, not an error.
\<close>

theorem getCharacter_backup_blob:
  assumes "net (DownloadPost p) = Resolved r" and "\<not> ok r"
  shows "trace (fst (getCharacter net p s)) =
           trace s @ [Fetch (DownloadPost p), Fetch (AvatarGet p)] \<and>
         (\<forall>r'. net (AvatarGet p) = Resolved r' \<longrightarrow>
            snd (getCharacter net p s) = Inr (body r'))"
  using assms
  by (simp add: getCharacter_def getCharacterBegin_def getCharacterResume_def emit_def Let_def
      split: fetch_result.splits)

text \<open>C9 on a catalog that answers 500, then 404: the blob is the body of the 404.\<close>

theorem getCharacter_backup_blob_witness:
  "bothFail (DownloadPost (js ''a/b'')) = Resolved (plainResponse False 500 [0x35]) \<and>
   \<not> ok (plainResponse False 500 [0x35]) \<and>
   bothFail (AvatarGet (js ''a/b'')) = Resolved (plainResponse False 404 [0x34]) \<and>
   \<not> ok (plainResponse False 404 [0x34]) \<and>
   snd (getCharacter bothFail (js ''a/b'') (initialState None)) = Inr (Blob [] [0x34]) \<and>
   trace (fst (getCharacter bothFail (js ''a/b'') (initialState None))) =
     [Fetch (DownloadPost (js ''a/b'')), Fetch (AvatarGet (js ''a/b''))]"
proof -
  have h1: "bothFail (DownloadPost (js ''a/b'')) = Resolved (plainResponse False 500 [0x35])"
    by (simp add: bothFail_def)
  have h2: "\<not> ok (plainResponse False 500 [0x35])"
    by (simp add: plainResponse_def)
  have h3: "bothFail (AvatarGet (js ''a/b'')) = Resolved (plainResponse False 404 [0x34])"
    by (simp add: bothFail_def)
  from getCharacter_backup_blob
         [where net = bothFail and p = "js ''a/b''" and s = "initialState None", OF h1 h2]
       h1 h2 h3
  show ?thesis
    by (simp add: plainResponse_def initialState_def)
qed

subsection \<open>processCharacters: results, batches and deliveries\<close>

lemma beginAll_eq:
  "beginAll ns s = s\<lparr>trace := trace s @ map (\<lambda>n. Fetch (DownloadPost (fullPath n))) ns\<rparr>"
  by (induction ns arbitrary: s) (simp_all add: getCharacterBegin_def emit_def)

lemma getCharacterResume_eq:
  "getCharacterResume net p s = (s\<lparr>trace := trace s @ backupRequest net p\<rparr>, fetchOutcome net p)"
  by (simp add: getCharacterResume_def fetchOutcome_def backupRequest_def emit_def Let_def
      split: fetch_result.splits)

lemma resumeAll_eq:
  "resumeAll net ns s =
     (s\<lparr>trace := trace s @ concat (map (\<lambda>n. backupRequest net (fullPath n)) ns)\<rparr>,
      map (outcome net) ns)"
  by (induction ns arbitrary: s) (simp_all add: getCharacterResume_eq outcome_def)

lemma startAll_eq:
  "startAll net ns s = (s\<lparr>trace := trace s @ batchRequests net ns\<rparr>, map (outcome net) ns)"
  by (simp add: startAll_def beginAll_eq resumeAll_eq batchRequests_def)

lemma promiseAll_append:
  "promiseAll (xs @ ys) =
     (case promiseAll xs of
        Inl e \<Rightarrow> Inl e
      | Inr a \<Rightarrow> (case promiseAll ys of Inl e \<Rightarrow> Inl e | Inr b \<Rightarrow> Inr (a @ b)))"
  by (induction xs rule: promiseAll.induct) (simp_all split: sum.splits)

lemma promiseAll_map_Inr: "promiseAll (map Inr xs) = Inr xs"
  by (induction xs) simp_all

lemma promiseAll_Inl_I: "Inl e \<in> set rs \<Longrightarrow> \<exists>e'. promiseAll rs = Inl e'"
proof (induction rs rule: promiseAll.induct)
  case 1
  then show ?case by simp
next
  case (2 e' rs)
  then show ?case by simp
next
  case (3 x rs)
  then have "Inl e \<in> set rs" by simp
  with "3.IH" obtain e' where "promiseAll rs = Inl e'" by blast
  then show ?case by simp
qed

lemma promiseAll_outcomes:
  assumes "\<forall>n\<in>set ns. outcome net n = Inr (ch n)"
  shows "promiseAll (map (outcome net) ns) = Inr (map ch ns)"
proof -
  from assms have "map (outcome net) ns = map Inr (map ch ns)" by simp
  then show ?thesis by (simp only: promiseAll_map_Inr)
qed

lemma concat_batchesFrom: "concat (batchesFrom i nodes) = drop i nodes"
proof (induction i nodes rule: batchesFrom.induct)
  case (1 i nodes)
  show ?case
  proof (cases "i < length nodes")
    case True
    have "take batchSize (drop i nodes) @ drop batchSize (drop i nodes) = drop i nodes"
      by (rule append_take_drop_id)
    then have "take batchSize (drop i nodes) @ drop (i + batchSize) nodes = drop i nodes"
      by (simp add: add.commute)
    with True 1 show ?thesis
      by (subst batchesFrom.simps) (simp add: slice_def)
  next
    case False
    then show ?thesis by (subst batchesFrom.simps) simp
  qed
qed

lemma concat_batches: "concat (batches nodes) = nodes"
  by (simp add: batches_def concat_batchesFrom)

lemma processBatches_result:
  "snd (processBatches net bs acc s) =
     (case promiseAll (map (outcome net) (concat bs)) of
        Inl e \<Rightarrow> Inl e
      | Inr cs \<Rightarrow> Inr (acc @ cs))"
proof (induction bs arbitrary: acc s)
  case Nil
  show ?case by simp
next
  case (Cons b bs)
  show ?case
  proof (cases "promiseAll (map (outcome net) b)")
    case (Inl e)
    then show ?thesis by (simp add: startAll_eq promiseAll_append)
  next
    case (Inr results)
    then show ?thesis
      by (simp add: startAll_eq promiseAll_append Cons.IH Let_def split: sum.splits)
  qed
qed

lemma processCharacters_result:
  "snd (processCharacters net nodes s) = promiseAll (map (outcome net) nodes)"
  by (simp add: processCharacters_def processBatches_result concat_batches split: sum.splits)

lemma updateView_present:
  assumes "characterListContainer s \<noteq> None"
  shows "trace (updateCharacterListInView cs a s) = trace s @ [UpdateView cs a]"
    and "characterListContainer (updateCharacterListInView cs a s) \<noteq> None"
  using assms by (auto simp: updateCharacterListInView_def emit_def)

lemma processBatches_trace:
  assumes "characterListContainer s \<noteq> None"
    and "\<forall>n\<in>set (concat bs). outcome net n = Inr (ch n)"
  shows "trace (fst (processBatches net bs acc s)) =
           trace s @
           concat (map (\<lambda>k. batchRequests net (bs ! k) @
                            [UpdateView (acc @ map ch (concat (take (Suc k) bs))) True])
                       [0..<length bs])"
  using assms
proof (induction bs arbitrary: acc s)
  case Nil
  show ?case by simp
next
  case (Cons b bs)
  let ?s1 = "s\<lparr>trace := trace s @ batchRequests net b\<rparr>"
  let ?s2 = "updateCharacterListInView (acc @ map ch b) True ?s1"
  have pa: "promiseAll (map (outcome net) b) = Inr (map ch b)"
    using Cons.prems(2) by (intro promiseAll_outcomes) simp
  have c1: "characterListContainer ?s1 \<noteq> None"
    using Cons.prems(1) by simp
  have step: "processBatches net (b # bs) acc s = processBatches net bs (acc @ map ch b) ?s2"
    using c1 by (simp add: startAll_eq pa Let_def)
  have c2: "characterListContainer ?s2 \<noteq> None"
    using c1 by (rule updateView_present(2))
  have t2: "trace ?s2 = trace ?s1 @ [UpdateView (acc @ map ch b) True]"
    using c1 by (rule updateView_present(1))
  have rest: "\<forall>n\<in>set (concat bs). outcome net n = Inr (ch n)"
    using Cons.prems(2) by simp
  show ?case
    unfolding step Cons.IH [OF c2 rest] t2
    by (simp add: map_upt_Suc del: upt_Suc)
qed

lemma ceil20_step: "0 < (m::nat) \<Longrightarrow> (m + 19) div 20 = Suc ((m - 20 + 19) div 20)"
proof (cases "m < 20")
  case True
  assume "0 < m"
  with True have "(m + 19) div 20 = 1"
    by (intro div_nat_eqI) simp_all
  with True show ?thesis by simp
next
  case False
  then have "m + 19 = (m - 20 + 19) + 20" by simp
  then have "(m + 19) div 20 = ((m - 20 + 19) + 20) div 20" by simp
  then show ?thesis by (simp only: div_add_self2)
qed

lemma length_batchesFrom:
  "length (batchesFrom i nodes) = (length nodes - i + 19) div 20"
proof (induction i nodes rule: batchesFrom.induct)
  case (1 i nodes)
  show ?case
  proof (cases "i < length nodes")
    case True
    have "length (batchesFrom i nodes) = Suc (length (batchesFrom (i + batchSize) nodes))"
      using True by (subst batchesFrom.simps) simp
    also have "\<dots> = Suc ((length nodes - i - 20 + 19) div 20)"
      using "1.IH" [OF True] by (simp add: batchSize_def)
    also have "\<dots> = (length nodes - i + 19) div 20"
      using True by (intro ceil20_step [symmetric]) simp
    finally show ?thesis .
  next
    case False
    then show ?thesis by (subst batchesFrom.simps) simp
  qed
qed

lemma batchesFrom_nth:
  "k < length (batchesFrom i nodes) \<Longrightarrow>
   batchesFrom i nodes ! k = take batchSize (drop (i + k * batchSize) nodes)"
proof (induction i nodes arbitrary: k rule: batchesFrom.induct)
  case (1 i nodes)
  show ?case
  proof (cases "i < length nodes")
    case True
    then have unf: "batchesFrom i nodes =
        take batchSize (drop i nodes) # batchesFrom (i + batchSize) nodes"
      by (subst batchesFrom.simps) (simp add: slice_def)
    show ?thesis
    proof (cases k)
      case 0
      then show ?thesis by (simp add: unf)
    next
      case (Suc j)
      with "1.prems" unf have "j < length (batchesFrom (i + batchSize) nodes)" by simp
      from "1.IH" [OF True this] Suc show ?thesis
        by (simp add: unf add.assoc)
    qed
  next
    case False
    with "1.prems" show ?thesis by (subst (asm) batchesFrom.simps) simp
  qed
qed

lemma concat_take_batchesFrom:
  "concat (take k (batchesFrom i nodes)) = take (k * batchSize) (drop i nodes)"
proof (induction i nodes arbitrary: k rule: batchesFrom.induct)
  case (1 i nodes)
  show ?case
  proof (cases "i < length nodes")
    case True
    then have unf: "batchesFrom i nodes =
        take batchSize (drop i nodes) # batchesFrom (i + batchSize) nodes"
      by (subst batchesFrom.simps) (simp add: slice_def)
    show ?thesis
    proof (cases k)
      case 0
      then show ?thesis by simp
    next
      case (Suc j)
      have "concat (take k (batchesFrom i nodes)) =
              take batchSize (drop i nodes) @ take (j * batchSize) (drop (i + batchSize) nodes)"
        by (simp add: unf Suc "1.IH" [OF True])
      also have "\<dots> = take (batchSize + j * batchSize) (drop i nodes)"
        by (simp add: take_add add.commute)
      finally show ?thesis by (simp add: Suc)
    qed
  next
    case False
    then show ?thesis by (subst batchesFrom.simps) simp
  qed
qed

lemma batches_nth:
  "k < length (batches nodes) \<Longrightarrow> batches nodes ! k = take batchSize (drop (k * batchSize) nodes)"
  by (simp add: batches_def batchesFrom_nth)

lemma length_batches: "length (batches nodes) = (length nodes + 19) div 20"
  by (simp add: batches_def length_batchesFrom)

lemma concat_take_batches:
  "concat (take k (batches nodes)) = take (k * batchSize) nodes"
  by (simp add: batches_def concat_take_batchesFrom)

lemma processCharacters_trace:
  assumes "characterListContainer s \<noteq> None"
    and "\<forall>n\<in>set nodes. outcome net n = Inr (ch n)"
  shows "trace (fst (processCharacters net nodes s)) =
           trace s @
           concat (map (\<lambda>k. batchRequests net (batches nodes ! k) @
                            [UpdateView (map ch (take (Suc k * batchSize) nodes)) True])
                       [0..<length (batches nodes)])"
proof -
  from assms(2) have "\<forall>n\<in>set (concat (batches nodes)). outcome net n = Inr (ch n)"
    by (simp only: concat_batches)
  from processBatches_trace [OF assms(1) this, of "[]"] show ?thesis
    by (simp add: processCharacters_def concat_take_batches)
qed

lemma deliveries_of_trace:
  "deliveries s =
     concat (map (\<lambda>e. case e of UpdateView cs a \<Rightarrow> [cs] | _ \<Rightarrow> []) (trace s))"
  by (simp add: deliveries_def)

lemma no_delivery_backupRequest:
  "concat (map (\<lambda>e. case e of UpdateView cs a \<Rightarrow> [cs] | _ \<Rightarrow> []) (backupRequest net p)) = []"
proof (cases "net (DownloadPost p)")
  case Rejected
  then show ?thesis by (simp add: backupRequest_def)
next
  case (Resolved r)
  then show ?thesis by (cases "ok r") (simp_all add: backupRequest_def)
qed

lemma no_delivery_backups:
  "concat (map (\<lambda>e. case e of UpdateView cs a \<Rightarrow> [cs] | _ \<Rightarrow> [])
     (concat (map (\<lambda>n. backupRequest net (fullPath n)) ns))) = []"
  by (induction ns) (simp_all add: no_delivery_backupRequest)

lemma no_delivery_posts:
  "concat (map (\<lambda>e. case e of UpdateView cs a \<Rightarrow> [cs] | _ \<Rightarrow> [])
     (map (\<lambda>n. Fetch (DownloadPost (fullPath n))) ns)) = []"
  by (induction ns) simp_all

lemma no_delivery_requests:
  "concat (map (\<lambda>e. case e of UpdateView cs a \<Rightarrow> [cs] | _ \<Rightarrow> [])
     (batchRequests net ns)) = []"
  by (simp only: batchRequests_def map_append concat_append no_delivery_posts
      no_delivery_backups append_Nil)

lemma deliveries_rounds:
  "concat (map (\<lambda>e. case e of UpdateView cs a \<Rightarrow> [cs] | _ \<Rightarrow> [])
     (concat (map (\<lambda>k. batchRequests net (bs k) @
                        [UpdateView (d k) True]) ks))) = map d ks"
  by (induction ks) (simp_all add: no_delivery_requests)

lemma processCharacters_deliveries:
  assumes "characterListContainer s \<noteq> None"
    and "\<forall>n\<in>set nodes. outcome net n = Inr (ch n)"
  shows "deliveries (fst (processCharacters net nodes s)) =
           deliveries s @ map (\<lambda>k. map ch (take (Suc k * batchSize) nodes)) [0..<length (batches nodes)]"
  unfolding deliveries_of_trace processCharacters_trace [OF assms]
  by (simp only: map_append concat_append deliveries_rounds)

lemma processBatches_no_container:
  "characterListContainer s = None \<Longrightarrow> deliveries (fst (processBatches net bs acc s)) = deliveries s"
proof (induction bs arbitrary: acc s)
  case Nil
  then show ?case by simp
next
  case (Cons b bs)
  let ?s1 = "s\<lparr>trace := trace s @ batchRequests net b\<rparr>"
  have d1: "deliveries ?s1 = deliveries s"
    by (simp add: deliveries_of_trace no_delivery_requests)
  have c1: "characterListContainer ?s1 = None"
    using Cons.prems by simp
  show ?case
  proof (cases "promiseAll (map (outcome net) b)")
    case (Inl e)
    then show ?thesis by (simp add: startAll_eq d1)
  next
    case (Inr results)
    then have "processBatches net (b # bs) acc s = processBatches net bs (acc @ results) ?s1"
      using c1 by (simp add: startAll_eq Let_def)
    with Cons.IH [OF c1] d1 show ?thesis by simp
  qed
qed

lemma fetchOutcome_resolves:
  assumes "net (DownloadPost p) \<noteq> Rejected"
    and "\<not> succeeded (net (DownloadPost p)) \<longrightarrow> net (AvatarGet p) \<noteq> Rejected"
  shows "\<exists>b. fetchOutcome net p = Inr b"
  using assms by (auto simp: fetchOutcome_def succeeded_def split: fetch_result.splits)

lemma last_deliveries:
  assumes "nodes \<noteq> []"
  shows "last (ds @ map (\<lambda>k. map ch (take (Suc k * batchSize) nodes)) [0..<length (batches nodes)])
           = map ch nodes"
proof -
  let ?n = "length (batches nodes)"
  from assms have "0 < length nodes" by simp
  then have "0 < (length nodes + 19) div 20" by arith
  then have pos: "0 < ?n" by (simp only: length_batches)
  then obtain m where m: "?n = Suc m" by (cases ?n) simp_all
  have "length nodes \<le> (length nodes + 19) div 20 * 20" by arith
  then have "length nodes \<le> ?n * 20" by (simp only: length_batches)
  then have "take (Suc m * batchSize) nodes = nodes"
    by (simp add: m batchSize_def)
  then show ?thesis
    by (simp add: m del: mult_Suc)
qed

text \<open>When every \<open>getCharacter\<close> resolves, every node is assembled, in input order.\<close>

lemma resolving_nodes_assembled:
  assumes "\<forall>n\<in>set nodes.
             net (DownloadPost (fullPath n)) \<noteq> Rejected \<and>
             (\<not> succeeded (net (DownloadPost (fullPath n))) \<longrightarrow>
                net (AvatarGet (fullPath n)) \<noteq> Rejected)"
  shows "\<exists>cs. snd (processCharacters net nodes s) = Inr cs \<and>
           list_all2 (\<lambda>n c. snd (getCharacter net (fullPath n) s) = Inr (url c) \<and>
                            c = makeCharacter n (url c)) nodes cs \<and>
           (characterListContainer s \<noteq> None \<and> nodes \<noteq> [] \<longrightarrow>
              last (deliveries (fst (processCharacters net nodes s))) = cs)"
proof -
  define ch where "ch = (\<lambda>n. makeCharacter n (projr (fetchOutcome net (fullPath n))))"
  have out: "\<forall>n\<in>set nodes. outcome net n = Inr (ch n)"
  proof
    fix n assume "n \<in> set nodes"
    with assms fetchOutcome_resolves [of net "fullPath n"]
    obtain b where "fetchOutcome net (fullPath n) = Inr b" by blast
    then show "outcome net n = Inr (ch n)" by (simp add: outcome_def ch_def)
  qed
  have res: "snd (processCharacters net nodes s) = Inr (map ch nodes)"
    by (simp only: processCharacters_result promiseAll_outcomes [OF out])
  have rel: "list_all2 (\<lambda>n c. snd (getCharacter net (fullPath n) s) = Inr (url c) \<and>
                            c = makeCharacter n (url c)) nodes (map ch nodes)"
  proof (simp only: list_all2_map2, rule list_all2_all_nthI)
    show "length nodes = length nodes" by simp
  next
    fix i assume "i < length nodes"
    then have "nodes ! i \<in> set nodes" by simp
    with out have "outcome net (nodes ! i) = Inr (ch (nodes ! i))" by blast
    then show "snd (getCharacter net (fullPath (nodes ! i)) s) = Inr (url (ch (nodes ! i))) \<and>
               ch (nodes ! i) = makeCharacter (nodes ! i) (url (ch (nodes ! i)))"
      by (simp add: getCharacter_eq outcome_def ch_def makeCharacter_def split: sum.splits)
  qed
  have del: "characterListContainer s \<noteq> None \<and> nodes \<noteq> [] \<longrightarrow>
               last (deliveries (fst (processCharacters net nodes s))) = map ch nodes"
  proof
    assume a: "characterListContainer s \<noteq> None \<and> nodes \<noteq> []"
    then have c: "characterListContainer s \<noteq> None" and ne: "nodes \<noteq> []" by simp_all
    show "last (deliveries (fst (processCharacters net nodes s))) = map ch nodes"
      by (simp only: processCharacters_deliveries [OF c out] last_deliveries [OF ne])
  qed
  from res rel del show ?thesis by blast
qed

lemma js_bad_good [simp]: "js ''good'' \<noteq> js ''bad''"
  by (simp add: js_def)

lemma upt_3: "[0..<3] = [0, 1, 2]"
  by (simp add: numeral_3_eq_3)

lemma lengths_45:
  assumes "length nodes = 45"
  shows "map length (batches nodes) = [20, 20, 5]"
proof -
  have n: "length (batches nodes) = 3"
    by (simp add: length_batches assms)
  have "map (\<lambda>k. batches nodes ! k) [0..<length (batches nodes)] = batches nodes"
    by (rule map_nth)
  then have e: "batches nodes = [batches nodes ! 0, batches nodes ! 1, batches nodes ! 2]"
    by (simp only: n upt_3 list.map)
  have "batches nodes ! 0 = take batchSize (drop (0 * batchSize) nodes)"
    by (rule batches_nth) (simp add: n)
  then have b0: "length (batches nodes ! 0) = 20"
    by (simp add: assms batchSize_def)
  have "batches nodes ! 1 = take batchSize (drop (1 * batchSize) nodes)"
    by (rule batches_nth) (simp add: n)
  then have b1: "length (batches nodes ! 1) = 20"
    by (simp add: assms batchSize_def)
  have "batches nodes ! 2 = take batchSize (drop (2 * batchSize) nodes)"
    by (rule batches_nth) (simp add: n)
  then have b2: "length (batches nodes ! 2) = 5"
    by (simp add: assms batchSize_def)
  from b0 b1 b2 show ?thesis
    by (subst e) simp
qed

text \<open>
  C5, as amended. \<open>batches\<close> cuts the node sequence into consecutive batches of 20, the
  last one possibly shorter (45 nodes: 20, 20 and 5). When the list container is present
  and \<open>getCharacter\<close> resolves for every node, the batches are processed in input order:
  the requests of batch \<open>k\<close>, then the delivery to the view of the characters of the
  first \<open>k + 1\<close> batches, then the next batch; each delivery extends the one before.
\<close>

theorem processCharacters_batches_deliveries:
  "concat (batches nodes) = nodes \<and>
   length (batches nodes) = (length nodes + 19) div 20 \<and>
   (\<forall>k<length (batches nodes).
      batches nodes ! k = take batchSize (drop (k * batchSize) nodes)) \<and>
   (length nodes = 45 \<longrightarrow> map length (batches nodes) = [20, 20, 5]) \<and>
   (characterListContainer s \<noteq> None \<and>
    (\<forall>n\<in>set nodes. snd (getCharacter net (fullPath n) s) = Inr (blobOf n)) \<longrightarrow>
      trace (fst (processCharacters net nodes s)) =
        trace s @
        concat (map (\<lambda>k. batchRequests net (batches nodes ! k) @
                         [UpdateView (map (\<lambda>n. makeCharacter n (blobOf n))
                                        (take (Suc k * batchSize) nodes)) True])
                    [0..<length (batches nodes)]) \<and>
      deliveries (fst (processCharacters net nodes s)) =
        deliveries s @
        map (\<lambda>k. map (\<lambda>n. makeCharacter n (blobOf n)) (take (Suc k * batchSize) nodes))
            [0..<length (batches nodes)])"
proof -
  have del: "trace (fst (processCharacters net nodes s)) =
        trace s @
        concat (map (\<lambda>k. batchRequests net (batches nodes ! k) @
                         [UpdateView (map (\<lambda>n. makeCharacter n (blobOf n))
                                        (take (Suc k * batchSize) nodes)) True])
                    [0..<length (batches nodes)]) \<and>
      deliveries (fst (processCharacters net nodes s)) =
        deliveries s @
        map (\<lambda>k. map (\<lambda>n. makeCharacter n (blobOf n)) (take (Suc k * batchSize) nodes))
            [0..<length (batches nodes)]"
    if c: "characterListContainer s \<noteq> None"
      and f: "\<forall>n\<in>set nodes. snd (getCharacter net (fullPath n) s) = Inr (blobOf n)"
  proof -
    from f have out: "\<forall>n\<in>set nodes. outcome net n = Inr (makeCharacter n (blobOf n))"
      by (simp add: getCharacter_eq outcome_def)
    from processCharacters_trace [OF c out] processCharacters_deliveries [OF c out]
    show ?thesis by simp
  qed
  from del show ?thesis
    by (simp add: concat_batches length_batches batches_nth lengths_45 del: mult_Suc)
qed

text \<open>
  C5 as stated fails: the delivery is guarded by \<open>if (characterListContainer)\<close>. With no
  container, 45 nodes are enriched and returned, and nothing is delivered.
\<close>

theorem processCharacters_no_container_counterexample:
  "length (exampleNodes 45) = 45 \<and>
   snd (processCharacters okNet (exampleNodes 45) (initialState None)) =
     Inr (map (\<lambda>n. makeCharacter n (Blob [] [0x2A])) (exampleNodes 45)) \<and>
   deliveries (fst (processCharacters okNet (exampleNodes 45) (initialState None))) = []"
proof -
  have out: "\<forall>n\<in>set (exampleNodes 45). outcome okNet n = Inr (makeCharacter n (Blob [] [0x2A]))"
    by (simp add: outcome_def fetchOutcome_def okNet_def plainResponse_def)
  have res: "snd (processCharacters okNet (exampleNodes 45) (initialState None)) =
     Inr (map (\<lambda>n. makeCharacter n (Blob [] [0x2A])) (exampleNodes 45))"
    by (simp only: processCharacters_result promiseAll_outcomes [OF out])
  have "deliveries (fst (processCharacters okNet (exampleNodes 45) (initialState None))) =
          deliveries (initialState None)"
    unfolding processCharacters_def
    by (rule processBatches_no_container) (simp add: initialState_def)
  also have "\<dots> = []"
    by (simp add: deliveries_def initialState_def)
  finally have del: "deliveries (fst (processCharacters okNet (exampleNodes 45)
      (initialState None))) = []" .
  have len: "length (exampleNodes 45) = 45"
    by (simp add: exampleNodes_def)
  from len res del show ?thesis by blast
qed

text \<open>The amended C5 on 45 nodes: three batches, three deliveries of 20, 40 and 45.\<close>

theorem processCharacters_batches_deliveries_witness:
  "length (exampleNodes 45) = 45 \<and>
   characterListContainer (initialState (Some someContainer)) \<noteq> None \<and>
   map length (batches (exampleNodes 45)) = [20, 20, 5] \<and>
   deliveries (fst (processCharacters okNet (exampleNodes 45) (initialState (Some someContainer)))) =
     [map (\<lambda>n. makeCharacter n (Blob [] [0x2A])) (take 20 (exampleNodes 45)),
      map (\<lambda>n. makeCharacter n (Blob [] [0x2A])) (take 40 (exampleNodes 45)),
      map (\<lambda>n. makeCharacter n (Blob [] [0x2A])) (exampleNodes 45)]"
proof -
  let ?s = "initialState (Some someContainer)"
  let ?ns = "exampleNodes 45"
  have len: "length ?ns = 45"
    by (simp add: exampleNodes_def)
  have c: "characterListContainer ?s \<noteq> None"
    by (simp add: initialState_def)
  have f: "\<forall>n\<in>set ?ns. snd (getCharacter okNet (fullPath n) ?s) = Inr (Blob [] [0x2A])"
    by (simp add: getCharacter_eq fetchOutcome_def okNet_def plainResponse_def)
  have d0: "deliveries ?s = []"
    by (simp add: deliveries_def initialState_def)
  have n3: "[0..<length (batches ?ns)] = [0, 1, 2]"
    by (simp add: length_batches len upt_3)
  from processCharacters_batches_deliveries
         [where nodes = ?ns and s = ?s and net = okNet and blobOf = "\<lambda>n. Blob [] [0x2A]"]
       len c f
  have "map length (batches ?ns) = [20, 20, 5]"
    and "deliveries (fst (processCharacters okNet ?ns ?s)) =
        deliveries ?s @
        map (\<lambda>k. map (\<lambda>n. makeCharacter n (Blob [] [0x2A])) (take (Suc k * batchSize) ?ns))
            [0..<length (batches ?ns)]"
    by blast+
  with len c d0 n3 show ?thesis
    by (simp add: batchSize_def)
qed

lemma promiseAll_length: "promiseAll rs = Inr xs \<Longrightarrow> length xs = length rs"
proof (induction rs arbitrary: xs rule: promiseAll.induct)
  case 1
  then show ?case by simp
next
  case (2 e rs)
  then show ?case by simp
next
  case (3 x rs)
  then obtain ys where ys: "promiseAll rs = Inr ys" and xs: "xs = x # ys"
    by (cases "promiseAll rs") simp_all
  from "3.IH" [OF ys] xs show ?case by simp
qed

lemma promiseAll_paths:
  "promiseAll (map (outcome net) ns) = Inr cs \<Longrightarrow> map cfullPath cs = map fullPath ns"
proof (induction ns arbitrary: cs)
  case Nil
  then show ?case by simp
next
  case (Cons n ns)
  from Cons.prems obtain c ds where c: "outcome net n = Inr c"
    and ds: "promiseAll (map (outcome net) ns) = Inr ds" and cs: "cs = c # ds"
    by (cases "outcome net n"; cases "promiseAll (map (outcome net) ns)") simp_all
  from c have "cfullPath c = fullPath n"
    by (auto simp: outcome_def makeCharacter_def split: sum.splits)
  with Cons.IH [OF ds] cs show ?case by simp
qed

lemma updateView_fields [simp]:
  "chubCharacters (updateCharacterListInView cs a s) = chubCharacters s"
  "isLoading (updateCharacterListInView cs a s) = isLoading s"
  "currentPage (updateCharacterListInView cs a s) = currentPage s"
  "hasMoreResults (updateCharacterListInView cs a s) = hasMoreResults s"
  by (simp_all add: updateCharacterListInView_def emit_def split: option.splits)

lemma processBatches_fields:
  "chubCharacters (fst (processBatches net bs acc s)) = chubCharacters s \<and>
   isLoading (fst (processBatches net bs acc s)) = isLoading s \<and>
   currentPage (fst (processBatches net bs acc s)) = currentPage s \<and>
   hasMoreResults (fst (processBatches net bs acc s)) = hasMoreResults s"
proof (induction bs arbitrary: acc s)
  case Nil
  show ?case by simp
next
  case (Cons b bs)
  show ?case
  proof (cases "promiseAll (map (outcome net) b)")
    case (Inl e)
    then show ?thesis by (simp add: startAll_eq)
  next
    case (Inr results)
    then show ?thesis by (simp add: startAll_eq Let_def Cons.IH)
  qed
qed

lemma processCharacters_fields [simp]:
  "chubCharacters (fst (processCharacters net nodes s)) = chubCharacters s"
  "isLoading (fst (processCharacters net nodes s)) = isLoading s"
  "currentPage (fst (processCharacters net nodes s)) = currentPage s"
  "hasMoreResults (fst (processCharacters net nodes s)) = hasMoreResults s"
  by (simp_all add: processCharacters_def processBatches_fields)

text \<open>What \<open>fetchResume\<close> leaves in \<open>chubCharacters\<close> and returns, for a page of nodes.\<close>

lemma fetchResume_nodes:
  "fetchResume net (SearchNodes nodes) s = (s', r) \<Longrightarrow>
     r = promiseAll (map (outcome net) nodes) \<and>
     chubCharacters s' = (case r of Inl e \<Rightarrow> [] | Inr cs \<Rightarrow> cs) \<and>
     isLoading s' = isLoading s \<and> currentPage s' = currentPage s \<and>
     hasMoreResults s' = hasMoreResults s"
proof (cases "nodes = []")
  case True
  assume "fetchResume net (SearchNodes nodes) s = (s', r)"
  with True show ?thesis by (auto simp: fetchResume_def)
next
  case False
  assume a: "fetchResume net (SearchNodes nodes) s = (s', r)"
  obtain s2 r2 where p: "processCharacters net nodes (s\<lparr>chubCharacters := []\<rparr>) = (s2, r2)"
    by (cases "processCharacters net nodes (s\<lparr>chubCharacters := []\<rparr>)")
  from p have r2: "r2 = promiseAll (map (outcome net) nodes)"
    using processCharacters_result [of net nodes "s\<lparr>chubCharacters := []\<rparr>"] by simp
  from p have f: "chubCharacters s2 = [] \<and> isLoading s2 = isLoading s \<and>
      currentPage s2 = currentPage s \<and> hasMoreResults s2 = hasMoreResults s"
    using processCharacters_fields [of net nodes "s\<lparr>chubCharacters := []\<rparr>"] by simp
  from a False p f
  have "r = r2 \<and> chubCharacters s' = (case r2 of Inl e \<Rightarrow> [] | Inr cs \<Rightarrow> cs) \<and>
     isLoading s' = isLoading s \<and> currentPage s' = currentPage s \<and>
     hasMoreResults s' = hasMoreResults s"
    by (cases r2) (auto simp: fetchResume_def)
  with r2 show ?thesis by simp
qed

lemma execResume_nodes:
  assumes "execResume cfg net app (SearchNodes nodes) s = (s', Inr ())"
  shows "hasMoreResults s' = (length nodes = findCount cfg \<and> nodes \<noteq> [])"
    and "isLoading s' = False"
    and "currentPage s' = currentPage s"
    and "promiseAll (map (outcome net) nodes) = Inr (chubCharacters s')"
proof -
  obtain s1 r where fr: "fetchResume net (SearchNodes nodes) s = (s1, r)"
    by (cases "fetchResume net (SearchNodes nodes) s")
  from assms fr obtain cs where r: "r = Inr cs"
    by (cases r) (simp_all add: execResume_def)
  from fetchResume_nodes [OF fr] r
  have pa: "promiseAll (map (outcome net) nodes) = Inr cs" and ch: "chubCharacters s1 = cs"
    and keep: "isLoading s1 = isLoading s" "currentPage s1 = currentPage s"
    by simp_all
  from pa have len: "length cs = length nodes"
    by (simp add: promiseAll_length)
  from assms fr r len ch keep pa
  have "hasMoreResults s' = (length nodes = findCount cfg \<and> nodes \<noteq> []) \<and>
        isLoading s' = False \<and> currentPage s' = currentPage s \<and>
        promiseAll (map (outcome net) nodes) = Inr (chubCharacters s')"
    by (auto simp: execResume_def noMore_def Let_def split: if_splits option.splits)
  then show "hasMoreResults s' = (length nodes = findCount cfg \<and> nodes \<noteq> [])"
    and "isLoading s' = False"
    and "currentPage s' = currentPage s"
    and "promiseAll (map (outcome net) nodes) = Inr (chubCharacters s')"
    by simp_all
qed

lemma execResume_completes:
  assumes "characterListContainer s \<noteq> None"
    and "promiseAll (map (outcome net) nodes) = Inr cs"
  shows "snd (execResume cfg net app (SearchNodes nodes) s) = Inr ()"
proof -
  obtain s1 r where fr: "fetchResume net (SearchNodes nodes) s = (s1, r)"
    by (cases "fetchResume net (SearchNodes nodes) s")
  from fetchResume_nodes [OF fr] assms(2) have r: "r = Inr cs" by simp
  have c: "nodes = [] \<Longrightarrow> characterListContainer s1 \<noteq> None"
    using fr assms(1) by (auto simp: fetchResume_def)
  from assms(2) have "length cs = length nodes" by (simp add: promiseAll_length)
  with fr r c show ?thesis
    by (auto simp: execResume_def noMore_def Let_def split: option.splits)
qed

lemma execResume_currentPage:
  "currentPage (fst (execResume cfg net app sr s)) = currentPage s"
proof (cases sr)
  case (SearchFailed e)
  then show ?thesis by (simp add: execResume_def fetchResume_def)
next
  case SearchNoNodes
  then show ?thesis by (simp add: execResume_def fetchResume_def)
next
  case (SearchNodes nodes)
  obtain s1 r where fr: "fetchResume net (SearchNodes nodes) s = (s1, r)"
    by (cases "fetchResume net (SearchNodes nodes) s")
  from fetchResume_nodes [OF fr] have "currentPage s1 = currentPage s" by simp
  with fr SearchNodes show ?thesis
    by (cases r) (auto simp: execResume_def noMore_def Let_def split: option.splits)
qed

lemma dropDetached_fields [simp]:
  "currentPage (dropDetached s) = currentPage s"
  "hasMoreResults (dropDetached s) = hasMoreResults s"
  "isLoading (dropDetached s) = isLoading s"
  "chubCharacters (dropDetached s) = chubCharacters s"
  "trace (dropDetached s) = trace s"
  by (simp_all add: dropDetached_def split: option.splits)

lemma execBegin_fresh:
  "currentPage (fst (execBegin enc cfg opts False s)) = 1"
  "hasMoreResults (fst (execBegin enc cfg opts False s))"
  "snd (execBegin enc cfg opts False s) =
     (case buildUrl enc cfg (opts\<lparr>page := Some 1\<rparr>) of Inl e \<Rightarrow> Failed e | Inr u \<Rightarrow> Issued u)"
  by (simp_all add: execBegin_def resetPagination_def emit_def Let_def split: sum.splits)

text \<open>
  C8. A fresh search (\<open>append\<close> false) first sets \<open>currentPage\<close> to 1 and \<open>hasMoreResults\<close>
  to true: its request is the one for page 1, and \<open>currentPage\<close> is 1 when it ends. When
  \<open>hasMoreResults\<close> is false after that first step, which needs \<open>append\<close> true, the call
  returns at once: no request, the state as it was.
\<close>

theorem executeCharacterSearch_reset_and_early_return:
  "currentPage (fst (execBegin enc cfg opts False s)) = 1 \<and>
   hasMoreResults (fst (execBegin enc cfg opts False s)) \<and>
   snd (execBegin enc cfg opts False s) =
     (case buildUrl enc cfg (opts\<lparr>page := Some 1\<rparr>) of Inl e \<Rightarrow> Failed e | Inr u \<Rightarrow> Issued u) \<and>
   currentPage (fst (executeCharacterSearch enc cfg net search opts False s)) = 1 \<and>
   (\<not> hasMoreResults (resetPagination app s) \<longrightarrow>
      app \<and> execBegin enc cfg opts app s = (s, Returned) \<and>
      executeCharacterSearch enc cfg net search opts app s = (s, Inr ()))"
proof -
  have page: "currentPage (fst (executeCharacterSearch enc cfg net search opts False s)) = 1"
  proof (cases "execBegin enc cfg opts False s")
    case (Pair s1 b)
    with execBegin_fresh(1) [of enc cfg opts s] have "currentPage s1 = 1" by simp
    with Pair show ?thesis
      by (cases b) (simp_all add: executeCharacterSearch_def execResume_currentPage)
  qed
  have early: "\<not> hasMoreResults (resetPagination app s) \<longrightarrow>
      app \<and> execBegin enc cfg opts app s = (s, Returned) \<and>
      executeCharacterSearch enc cfg net search opts app s = (s, Inr ())"
    by (simp add: executeCharacterSearch_def execBegin_def resetPagination_def)
  from execBegin_fresh [of enc cfg opts s] page early show ?thesis by blast
qed

text \<open>
  C8 on a state with \<open>hasMoreResults\<close> false and page 3: a load-more returns at once with
  the state as it was, a fresh search starts from page 1.
\<close>

theorem executeCharacterSearch_reset_and_early_return_witness:
  "\<not> hasMoreResults (resetPagination True exhausted) \<and>
   executeCharacterSearch Inr defaultSettings okNet (\<lambda>u. SearchNodes (exampleNodes 3))
     exampleOptions True exhausted = (exhausted, Inr ()) \<and>
   currentPage exhausted = 3 \<and>
   currentPage (fst (execBegin Inr defaultSettings exampleOptions False exhausted)) = 1 \<and>
   hasMoreResults (fst (execBegin Inr defaultSettings exampleOptions False exhausted))"
proof -
  have h: "\<not> hasMoreResults (resetPagination True exhausted)"
    by (simp add: resetPagination_def exhausted_def)
  have p: "currentPage exhausted = 3"
    by (simp add: exhausted_def)
  from executeCharacterSearch_reset_and_early_return
         [where app = True and s = exhausted and enc = Inr and cfg = defaultSettings
            and opts = exampleOptions and net = okNet
            and search = "\<lambda>u. SearchNodes (exampleNodes 3)"] h p
  show ?thesis by simp
qed

text \<open>
  C2, as amended. When the continuation of a search ends normally on a page of nodes,
  \<open>hasMoreResults\<close> is true exactly when the page is not empty and holds exactly
  \<open>findCount\<close> results, the number of characters kept. So it is false for fewer results
  (zero included) and for more; with \<open>findCount\<close> 10, ten results leave it true, nine or
  fewer make it false; for a page of at most \<open>findCount\<close> results, \<open>findCount\<close> positive,
  it is false exactly when the page has fewer than \<open>findCount\<close> results.
\<close>

theorem hasMoreResults_after_page:
  assumes "execResume cfg net app (SearchNodes nodes) s = (s', Inr ())"
  shows "length (chubCharacters s') = length nodes \<and>
         hasMoreResults s' = (length nodes = findCount cfg \<and> nodes \<noteq> []) \<and>
         (findCount cfg = 10 \<longrightarrow>
            (length nodes = 10 \<longrightarrow> hasMoreResults s') \<and>
            (length nodes \<le> 9 \<longrightarrow> \<not> hasMoreResults s')) \<and>
         (length nodes \<le> findCount cfg \<and> 0 < findCount cfg \<longrightarrow>
            (\<not> hasMoreResults s') = (length nodes < findCount cfg))"
proof -
  from execResume_nodes(4) [OF assms] have "length (chubCharacters s') = length nodes"
    by (simp add: promiseAll_length)
  moreover note execResume_nodes(1) [OF assms]
  ultimately show ?thesis by auto
qed

lemma okNet_outcomes:
  "promiseAll (map (outcome okNet) ns) = Inr (map (\<lambda>n. makeCharacter n (Blob [] [0x2A])) ns)"
  by (rule promiseAll_outcomes) (simp add: outcome_def fetchOutcome_def okNet_def plainResponse_def)

text \<open>
  C2 as stated fails on a page larger than the page size: with \<open>findCount\<close> 10 and 11
  results, \<open>hasMoreResults\<close> becomes false, and 11 is not fewer than 10.
\<close>

theorem hasMoreResults_counterexample:
  "findCount defaultSettings = 10 \<and>
   length (exampleNodes 11) = 11 \<and>
   snd (execResume defaultSettings okNet False (SearchNodes (exampleNodes 11))
          (initialState (Some someContainer))) = Inr () \<and>
   length (chubCharacters (fst (execResume defaultSettings okNet False
          (SearchNodes (exampleNodes 11)) (initialState (Some someContainer))))) = 11 \<and>
   \<not> hasMoreResults (fst (execResume defaultSettings okNet False
          (SearchNodes (exampleNodes 11)) (initialState (Some someContainer)))) \<and>
   \<not> length (exampleNodes 11) < findCount defaultSettings"
proof -
  let ?s = "initialState (Some someContainer)"
  let ?r = "execResume defaultSettings okNet False (SearchNodes (exampleNodes 11)) ?s"
  have c: "characterListContainer ?s \<noteq> None" by (simp add: initialState_def)
  have fin: "snd ?r = Inr ()"
    using c okNet_outcomes by (rule execResume_completes)
  then have eq: "?r = (fst ?r, Inr ())" by (metis prod.collapse)
  have len: "length (exampleNodes 11) = 11" by (simp add: exampleNodes_def)
  have fc: "findCount defaultSettings = 10" by (simp add: defaultSettings_def)
  from execResume_nodes(1) [OF eq] len fc have "\<not> hasMoreResults (fst ?r)" by simp
  moreover from execResume_nodes(4) [OF eq] len have "length (chubCharacters (fst ?r)) = 11"
    by (simp add: promiseAll_length)
  ultimately show ?thesis using fin len fc by simp
qed

text \<open>The amended C2 on a full page: \<open>findCount\<close> 10, ten results, more to come.\<close>

theorem hasMoreResults_after_page_witness:
  "snd (execResume defaultSettings okNet False (SearchNodes (exampleNodes 10))
          (initialState (Some someContainer))) = Inr () \<and>
   findCount defaultSettings = 10 \<and>
   length (exampleNodes 10) = 10 \<and>
   hasMoreResults (fst (execResume defaultSettings okNet False
          (SearchNodes (exampleNodes 10)) (initialState (Some someContainer)))) \<and>
   length (chubCharacters (fst (execResume defaultSettings okNet False
          (SearchNodes (exampleNodes 10)) (initialState (Some someContainer))))) = 10"
proof -
  let ?s = "initialState (Some someContainer)"
  let ?r = "execResume defaultSettings okNet False (SearchNodes (exampleNodes 10)) ?s"
  have c: "characterListContainer ?s \<noteq> None" by (simp add: initialState_def)
  have fin: "snd ?r = Inr ()"
    using c okNet_outcomes by (rule execResume_completes)
  then have eq: "?r = (fst ?r, Inr ())" by (metis prod.collapse)
  have len: "length (exampleNodes 10) = 10" by (simp add: exampleNodes_def)
  have fc: "findCount defaultSettings = 10" by (simp add: defaultSettings_def)
  from len have ne: "exampleNodes 10 \<noteq> []" by auto
  from hasMoreResults_after_page [OF eq] len fc fin ne show ?thesis by simp
qed

lemma buildUrl_plain:
  "\<exists>u. buildUrl Inr cfg opts = Inr u"
  by (simp add: buildUrl_def searchTermPart_def appendTags_def split: option.splits)

text \<open>
  C10, as amended. A call of \<open>fetchCharactersBySearch\<close> that cannot build its URL, or
  whose search fetch or JSON parse rejects, leaves \<open>chubCharacters\<close> as it was. Every other
  call empties the list, whatever it held, once the search response is there and before
  any per-item fetch, and rebuilds it from this page alone: it ends empty when the body
  has no nodes or the enrichment rejects, else as the list returned, one character per
  node of the page in order; the old content has no influence on the outcome. So after a
  load-more search (\<open>append\<close> true) that ends normally the list holds the newest page only.
\<close>

theorem fetchCharactersBySearch_replaces_list:
  "(\<forall>e. buildUrl enc cfg opts = Inl e \<longrightarrow>
      fetchCharactersBySearch enc cfg net search opts s = (s, Inl e)) \<and>
   (\<forall>u. buildUrl enc cfg opts = Inr u \<longrightarrow>
      (\<forall>e. search u = SearchFailed e \<longrightarrow>
         fetchCharactersBySearch enc cfg net search opts s =
           (emit (Fetch (SearchGet u)) s, Inl e) \<and>
         chubCharacters (fst (fetchCharactersBySearch enc cfg net search opts s)) =
           chubCharacters s) \<and>
      (search u = SearchNoNodes \<longrightarrow>
         fetchCharactersBySearch enc cfg net search opts s =
           ((emit (Fetch (SearchGet u)) s)\<lparr>chubCharacters := []\<rparr>, Inl TypeError)) \<and>
      (\<forall>nodes. search u = SearchNodes nodes \<longrightarrow>
         fetchCharactersBySearch enc cfg net search opts (s\<lparr>chubCharacters := old\<rparr>) =
           fetchCharactersBySearch enc cfg net search opts s \<and>
         chubCharacters (fst (fetchCharactersBySearch enc cfg net search opts s)) =
           (case snd (fetchCharactersBySearch enc cfg net search opts s) of
              Inl e \<Rightarrow> [] | Inr cs \<Rightarrow> cs) \<and>
         (\<forall>cs. snd (fetchCharactersBySearch enc cfg net search opts s) = Inr cs \<longrightarrow>
            map cfullPath cs = map fullPath nodes))) \<and>
   (\<forall>nodes s'. execResume cfg net True (SearchNodes nodes) s = (s', Inr ()) \<longrightarrow>
      map cfullPath (chubCharacters s') = map fullPath nodes)"
proof (intro conjI allI impI)
  fix e assume "buildUrl enc cfg opts = Inl e"
  then show "fetchCharactersBySearch enc cfg net search opts s = (s, Inl e)"
    by (simp add: fetchCharactersBySearch_def)
next
  fix u e assume "buildUrl enc cfg opts = Inr u" and "search u = SearchFailed e"
  then show "fetchCharactersBySearch enc cfg net search opts s =
      (emit (Fetch (SearchGet u)) s, Inl e)"
    and "chubCharacters (fst (fetchCharactersBySearch enc cfg net search opts s)) =
      chubCharacters s"
    by (simp_all add: fetchCharactersBySearch_def fetchResume_def emit_def)
next
  fix u assume "buildUrl enc cfg opts = Inr u" and "search u = SearchNoNodes"
  then show "fetchCharactersBySearch enc cfg net search opts s =
      ((emit (Fetch (SearchGet u)) s)\<lparr>chubCharacters := []\<rparr>, Inl TypeError)"
    by (simp add: fetchCharactersBySearch_def fetchResume_def)
next
  fix u nodes assume u: "buildUrl enc cfg opts = Inr u" and sr: "search u = SearchNodes nodes"
  let ?s0 = "emit (Fetch (SearchGet u)) s"
  have unf: "fetchCharactersBySearch enc cfg net search opts s =
      fetchResume net (SearchNodes nodes) ?s0"
    using u sr by (simp add: fetchCharactersBySearch_def)
  show "fetchCharactersBySearch enc cfg net search opts (s\<lparr>chubCharacters := old\<rparr>) =
      fetchCharactersBySearch enc cfg net search opts s"
    using u sr by (simp add: fetchCharactersBySearch_def fetchResume_def emit_def)
  obtain s1 r where fr: "fetchResume net (SearchNodes nodes) ?s0 = (s1, r)"
    by (cases "fetchResume net (SearchNodes nodes) ?s0")
  from fetchResume_nodes [OF fr]
  have r: "r = promiseAll (map (outcome net) nodes)"
    and ch: "chubCharacters s1 = (case r of Inl e \<Rightarrow> [] | Inr cs \<Rightarrow> cs)"
    by simp_all
  from ch show "chubCharacters (fst (fetchCharactersBySearch enc cfg net search opts s)) =
      (case snd (fetchCharactersBySearch enc cfg net search opts s) of
         Inl e \<Rightarrow> [] | Inr cs \<Rightarrow> cs)"
    by (simp add: unf fr)
  fix cs assume "snd (fetchCharactersBySearch enc cfg net search opts s) = Inr cs"
  with r have "promiseAll (map (outcome net) nodes) = Inr cs"
    by (simp add: unf fr)
  then show "map cfullPath cs = map fullPath nodes"
    by (rule promiseAll_paths)
next
  fix nodes s' assume "execResume cfg net True (SearchNodes nodes) s = (s', Inr ())"
  from execResume_nodes(4) [OF this] show "map cfullPath (chubCharacters s') = map fullPath nodes"
    by (rule promiseAll_paths)
qed

text \<open>
  C10 as stated fails: the list is emptied after the two awaits of the search response,
  not on every call. The list holds the character of an earlier page and the search
  request is rejected: the call rejects and the list is as it was.
\<close>

theorem fetchCharactersBySearch_kept_counterexample:
  "chubCharacters pageOne = [exampleCharacter badNode] \<and>
   snd (fetchCharactersBySearch Inr defaultSettings okNet failingSearch exampleOptions pageOne) =
     Inl NetworkError \<and>
   chubCharacters (fst (fetchCharactersBySearch Inr defaultSettings okNet failingSearch
     exampleOptions pageOne)) = [exampleCharacter badNode]"
proof -
  obtain u where u: "buildUrl Inr defaultSettings exampleOptions = Inr u"
    using buildUrl_plain by blast
  then show ?thesis
    by (simp add: fetchCharactersBySearch_def fetchResume_def failingSearch_def emit_def
        pageOne_def exampleCharacter_def)
qed

text \<open>
  The amended C10 on the same list: the search returns one node, and the list ends as
  the character of that node alone.
\<close>

theorem fetchCharactersBySearch_replaces_list_witness:
  "chubCharacters pageOne = [exampleCharacter badNode] \<and>
   snd (fetchCharactersBySearch Inr defaultSettings okNet goodSearch exampleOptions pageOne) =
     Inr [exampleCharacter goodNode] \<and>
   chubCharacters (fst (fetchCharactersBySearch Inr defaultSettings okNet goodSearch
     exampleOptions pageOne)) = [exampleCharacter goodNode]"
proof -
  let ?f = "fetchCharactersBySearch Inr defaultSettings okNet goodSearch exampleOptions pageOne"
  obtain u where u: "buildUrl Inr defaultSettings exampleOptions = Inr u"
    using buildUrl_plain by blast
  have sr: "goodSearch u = SearchNodes [goodNode]" by (simp add: goodSearch_def)
  have unf: "?f = fetchResume okNet (SearchNodes [goodNode]) (emit (Fetch (SearchGet u)) pageOne)"
    by (simp add: fetchCharactersBySearch_def u sr)
  obtain s1 r
    where fr: "fetchResume okNet (SearchNodes [goodNode]) (emit (Fetch (SearchGet u)) pageOne) =
      (s1, r)"
    by (cases "fetchResume okNet (SearchNodes [goodNode]) (emit (Fetch (SearchGet u)) pageOne)")
  from fetchResume_nodes [OF fr] okNet_outcomes [of "[goodNode]"]
  have "r = Inr [exampleCharacter goodNode]" by (simp add: exampleCharacter_def)
  with unf fr have snd: "snd ?f = Inr [exampleCharacter goodNode]"
    by simp
  have old: "chubCharacters pageOne = [exampleCharacter badNode]"
    by (simp add: pageOne_def exampleCharacter_def)
  from fetchCharactersBySearch_replaces_list
         [where search = goodSearch and net = okNet and s = pageOne and enc = Inr
            and cfg = defaultSettings and opts = exampleOptions] u sr
  have "chubCharacters (fst ?f) = (case snd ?f of Inl e \<Rightarrow> [] | Inr cs \<Rightarrow> cs)"
    by blast
  with snd old show ?thesis by simp
qed

lemma deliveries_trace_append:
  "deliveries (s\<lparr>trace := trace s @ batchRequests net b\<rparr>) = deliveries s"
  by (simp add: deliveries_of_trace no_delivery_requests)

lemma deliveries_updateView:
  "length (deliveries (updateCharacterListInView cs a s)) \<le> Suc (length (deliveries s))"
  by (simp add: updateCharacterListInView_def emit_def deliveries_of_trace split: option.splits)

lemma processBatches_deliveries_bound:
  assumes "k < length bs" and "promiseAll (map (outcome net) (bs ! k)) = Inl e"
  shows "length (deliveries (fst (processBatches net bs acc s))) \<le> length (deliveries s) + k"
  using assms
proof (induction bs arbitrary: k acc s)
  case Nil
  then show ?case by simp
next
  case (Cons b bs)
  let ?s1 = "s\<lparr>trace := trace s @ batchRequests net b\<rparr>"
  have d1: "deliveries ?s1 = deliveries s"
    by (rule deliveries_trace_append)
  show ?case
  proof (cases "promiseAll (map (outcome net) b)")
    case (Inl e')
    then show ?thesis by (simp add: startAll_eq d1)
  next
    case (Inr results)
    with Cons.prems(2) obtain j where k: "k = Suc j" by (cases k) simp_all
    define s2 where "s2 = (if characterListContainer ?s1 \<noteq> None
        then updateCharacterListInView (acc @ results) True ?s1 else ?s1)"
    have d2: "length (deliveries s2) \<le> Suc (length (deliveries s))"
      using deliveries_updateView [of "acc @ results" True ?s1] d1 by (simp add: s2_def)
    from Inr have unf: "processBatches net (b # bs) acc s =
        processBatches net bs (acc @ results) s2"
      by (simp add: startAll_eq Let_def s2_def)
    from Cons.prems k have "j < length bs" and "promiseAll (map (outcome net) (bs ! j)) = Inl e"
      by simp_all
    from Cons.IH [OF this, of "acc @ results" s2] d2 k
    have "length (deliveries (fst (processBatches net bs (acc @ results) s2))) \<le>
        length (deliveries s) + k"
      by simp
    then show ?thesis by (simp only: unf)
  qed
qed

lemma node_in_its_batch:
  assumes "i < length nodes"
  shows "i div batchSize < length (batches nodes)"
    and "nodes ! i \<in> set (batches nodes ! (i div batchSize))"
proof -
  from assms have "i div 20 < (length nodes + 19) div 20" by arith
  then show k: "i div batchSize < length (batches nodes)"
    by (simp add: length_batches batchSize_def)
  have m: "i div 20 * 20 + i mod 20 = i" by simp
  have "take 20 (drop (i div 20 * 20) nodes) ! (i mod 20) = nodes ! (i div 20 * 20 + i mod 20)"
    using assms by (subst nth_take) simp_all
  with m have e: "take 20 (drop (i div 20 * 20) nodes) ! (i mod 20) = nodes ! i" by simp
  have "i mod 20 < length (take 20 (drop (i div 20 * 20) nodes))"
    using assms m by (simp add: less_diff_conv)
  then have "take 20 (drop (i div 20 * 20) nodes) ! (i mod 20) \<in>
      set (take 20 (drop (i div 20 * 20) nodes))"
    by (rule nth_mem)
  with e k show "nodes ! i \<in> set (batches nodes ! (i div batchSize))"
    by (simp add: batches_nth batchSize_def)
qed

text \<open>A rejected \<open>getCharacter\<close> rejects the enrichment and the search that called it.\<close>

lemma rejection_aborts:
  assumes "i < length nodes" and "snd (getCharacter net (fullPath (nodes ! i)) s) = Inl e"
  shows "\<exists>e'. snd (processCharacters net nodes s') = Inl e'"
    and "length (deliveries (fst (processCharacters net nodes s'))) \<le>
           length (deliveries s') + i div batchSize"
    and "\<exists>e'. snd (execResume cfg net app (SearchNodes nodes) s') = Inl e'"
    and "chubCharacters (fst (execResume cfg net app (SearchNodes nodes) s')) = []"
proof -
  from assms(2) have out: "outcome net (nodes ! i) = Inl e"
    by (simp add: getCharacter_eq outcome_def split: sum.splits)
  from assms(1) out have "Inl e \<in> set (map (outcome net) nodes)"
    by (metis image_eqI nth_mem set_map)
  then obtain e1 where e1: "promiseAll (map (outcome net) nodes) = Inl e1"
    using promiseAll_Inl_I by blast
  then show "\<exists>e'. snd (processCharacters net nodes s') = Inl e'"
    by (simp add: processCharacters_result)
  from node_in_its_batch [OF assms(1)] out
  have k: "i div batchSize < length (batches nodes)"
    and "Inl e \<in> set (map (outcome net) (batches nodes ! (i div batchSize)))"
    by (auto intro: rev_image_eqI)
  then obtain e2 where "promiseAll (map (outcome net) (batches nodes ! (i div batchSize))) = Inl e2"
    using promiseAll_Inl_I by blast
  from processBatches_deliveries_bound [OF k this]
  show "length (deliveries (fst (processCharacters net nodes s'))) \<le>
           length (deliveries s') + i div batchSize"
    by (simp add: processCharacters_def)
  obtain s1 r where fr: "fetchResume net (SearchNodes nodes) s' = (s1, r)"
    by (cases "fetchResume net (SearchNodes nodes) s'")
  from fetchResume_nodes [OF fr] e1 have "r = Inl e1" and "chubCharacters s1 = []"
    by simp_all
  with fr show "\<exists>e'. snd (execResume cfg net app (SearchNodes nodes) s') = Inl e'"
    and "chubCharacters (fst (execResume cfg net app (SearchNodes nodes) s')) = []"
    by (simp_all add: execResume_def)
qed

text \<open>
  C1, as amended. When no fetch is rejected by the transport, a node whose download POST
  and avatar GET both get failure statuses stops nothing: every node of the sequence,
  that one included, is assembled (from the blob \<open>getCharacter\<close> resolves with) and the
  result holds them in input order; when the list container is present, the last delivery
  to the view is that complete list. When \<open>getCharacter\<close> rejects for the node at index
  \<open>i\<close>, \<open>Promise.all\<close> rejects: \<open>processCharacters\<close> rejects, it makes at most the
  deliveries of the batches before the batch of that node, and the search that called the
  enricher rejects with the character list left empty.
\<close>

theorem processCharacters_failure_statuses:
  "((\<forall>n\<in>set nodes.
       net (DownloadPost (fullPath n)) \<noteq> Rejected \<and>
       (\<not> succeeded (net (DownloadPost (fullPath n))) \<longrightarrow>
          net (AvatarGet (fullPath n)) \<noteq> Rejected)) \<longrightarrow>
    (\<exists>cs. snd (processCharacters net nodes s) = Inr cs \<and>
       list_all2 (\<lambda>n c. snd (getCharacter net (fullPath n) s) = Inr (url c) \<and>
                        c = makeCharacter n (url c)) nodes cs \<and>
       (characterListContainer s \<noteq> None \<and> nodes \<noteq> [] \<longrightarrow>
          last (deliveries (fst (processCharacters net nodes s))) = cs))) \<and>
   (\<forall>i e. i < length nodes \<and> snd (getCharacter net (fullPath (nodes ! i)) s) = Inl e \<longrightarrow>
      (\<exists>e'. snd (processCharacters net nodes s) = Inl e') \<and>
      length (deliveries (fst (processCharacters net nodes s))) \<le>
        length (deliveries s) + i div batchSize \<and>
      (\<exists>e'. snd (execResume cfg net app (SearchNodes nodes) s) = Inl e') \<and>
      chubCharacters (fst (execResume cfg net app (SearchNodes nodes) s)) = [])"
proof (intro conjI allI impI)
  assume "\<forall>n\<in>set nodes.
       net (DownloadPost (fullPath n)) \<noteq> Rejected \<and>
       (\<not> succeeded (net (DownloadPost (fullPath n))) \<longrightarrow>
          net (AvatarGet (fullPath n)) \<noteq> Rejected)"
  then show "\<exists>cs. snd (processCharacters net nodes s) = Inr cs \<and>
       list_all2 (\<lambda>n c. snd (getCharacter net (fullPath n) s) = Inr (url c) \<and>
                        c = makeCharacter n (url c)) nodes cs \<and>
       (characterListContainer s \<noteq> None \<and> nodes \<noteq> [] \<longrightarrow>
          last (deliveries (fst (processCharacters net nodes s))) = cs)"
    by (rule resolving_nodes_assembled)
next
  fix i e
  assume "i < length nodes \<and> snd (getCharacter net (fullPath (nodes ! i)) s) = Inl e"
  then have i: "i < length nodes"
    and r: "snd (getCharacter net (fullPath (nodes ! i)) s) = Inl e"
    by simp_all
  show "\<exists>e'. snd (processCharacters net nodes s) = Inl e'"
    by (rule rejection_aborts(1) [OF i r])
  show "length (deliveries (fst (processCharacters net nodes s))) \<le>
        length (deliveries s) + i div batchSize"
    by (rule rejection_aborts(2) [OF i r])
  show "\<exists>e'. snd (execResume cfg net app (SearchNodes nodes) s) = Inl e'"
    by (rule rejection_aborts(3) [OF i r])
  show "chubCharacters (fst (execResume cfg net app (SearchNodes nodes) s)) = []"
    by (rule rejection_aborts(4) [OF i r])
qed

text \<open>
  C1 as stated fails. The download POST of \<open>badNode\<close> gets a 500 and its avatar GET is
  rejected: \<open>Promise.all\<close> rejects, \<open>goodNode\<close> of the same batch is never delivered, and
  the search that called the enricher rejects too, the character list left empty.
\<close>

theorem processCharacters_rejection_counterexample:
  "\<not> succeeded (flakyNet (DownloadPost (fullPath badNode))) \<and>
   \<not> succeeded (flakyNet (AvatarGet (fullPath badNode))) \<and>
   succeeded (flakyNet (DownloadPost (fullPath goodNode))) \<and>
   snd (processCharacters flakyNet [goodNode, badNode] (initialState (Some someContainer))) =
     Inl NetworkError \<and>
   deliveries (fst (processCharacters flakyNet [goodNode, badNode]
     (initialState (Some someContainer)))) = [] \<and>
   snd (execResume defaultSettings flakyNet False (SearchNodes [goodNode, badNode])
     (initialState (Some someContainer))) = Inl NetworkError \<and>
   chubCharacters (fst (execResume defaultSettings flakyNet False
     (SearchNodes [goodNode, badNode]) (initialState (Some someContainer)))) = []"
  by (simp add: execResume_def fetchResume_def processCharacters_def batches_def
      batchesFrom.simps slice_def batchSize_def
      startAll_def getCharacterBegin_def getCharacterResume_def emit_def flakyNet_def
      succeeded_def plainResponse_def goodNode_def
      badNode_def initialState_def deliveries_def)

text \<open>
  The amended C1 at work. \<open>badNode\<close> gets a 500 and a 404: both nodes are returned and
  delivered, \<open>badNode\<close> with the body of the 404. \<open>badNode\<close> gets a 500 and a rejected GET:
  the enrichment rejects and nothing is delivered.
\<close>

theorem processCharacters_failure_statuses_witness:
  "\<not> succeeded (statusNet (DownloadPost (fullPath badNode))) \<and>
   \<not> succeeded (statusNet (AvatarGet (fullPath badNode))) \<and>
   snd (processCharacters statusNet [goodNode, badNode] (initialState (Some someContainer))) =
     Inr [makeCharacter goodNode (Blob [] [0x2A]), makeCharacter badNode (Blob [] [0x34])] \<and>
   last (deliveries (fst (processCharacters statusNet [goodNode, badNode]
     (initialState (Some someContainer))))) =
     [makeCharacter goodNode (Blob [] [0x2A]), makeCharacter badNode (Blob [] [0x34])] \<and>
   snd (getCharacter flakyNet (fullPath ([goodNode, badNode] ! 1))
     (initialState (Some someContainer))) = Inl NetworkError \<and>
   deliveries (fst (processCharacters flakyNet [goodNode, badNode]
     (initialState (Some someContainer)))) = []"
proof -
  let ?s = "initialState (Some someContainer)"
  have hyp: "\<forall>n\<in>set [goodNode, badNode].
               statusNet (DownloadPost (fullPath n)) \<noteq> Rejected \<and>
               (\<not> succeeded (statusNet (DownloadPost (fullPath n))) \<longrightarrow>
                  statusNet (AvatarGet (fullPath n)) \<noteq> Rejected)"
    by (simp add: statusNet_def)
  have g: "snd (getCharacter statusNet (fullPath goodNode) ?s) = Inr (Blob [] [0x2A])"
    by (simp add: getCharacter_eq fetchOutcome_def statusNet_def goodNode_def plainResponse_def)
  have b: "snd (getCharacter statusNet (fullPath badNode) ?s) = Inr (Blob [] [0x34])"
    by (simp add: getCharacter_eq fetchOutcome_def statusNet_def badNode_def plainResponse_def)
  from processCharacters_failure_statuses [where nodes = "[goodNode, badNode]"
      and net = statusNet and s = ?s] hyp
  obtain cs where res: "snd (processCharacters statusNet [goodNode, badNode] ?s) = Inr cs"
    and rel: "list_all2 (\<lambda>n c. snd (getCharacter statusNet (fullPath n) ?s) = Inr (url c) \<and>
                            c = makeCharacter n (url c)) [goodNode, badNode] cs"
    and del: "characterListContainer ?s \<noteq> None \<and> [goodNode, badNode] \<noteq> [] \<longrightarrow>
                last (deliveries (fst (processCharacters statusNet [goodNode, badNode] ?s))) = cs"
    by blast
  from rel g b have cs: "cs = [makeCharacter goodNode (Blob [] [0x2A]),
                              makeCharacter badNode (Blob [] [0x34])]"
    by (auto simp: list_all2_Cons1)
  have c: "characterListContainer ?s \<noteq> None"
    by (simp add: initialState_def)
  have st: "\<not> succeeded (statusNet (DownloadPost (fullPath badNode))) \<and>
            \<not> succeeded (statusNet (AvatarGet (fullPath badNode)))"
    by (simp add: statusNet_def succeeded_def badNode_def plainResponse_def)
  have rej: "(1::nat) < length [goodNode, badNode] \<and>
      snd (getCharacter flakyNet (fullPath ([goodNode, badNode] ! 1)) ?s) = Inl NetworkError"
    by (simp add: getCharacter_eq fetchOutcome_def flakyNet_def badNode_def plainResponse_def)
  from processCharacters_failure_statuses [where nodes = "[goodNode, badNode]"
      and net = flakyNet and s = ?s] rej
  have "length (deliveries (fst (processCharacters flakyNet [goodNode, badNode] ?s))) \<le>
      length (deliveries ?s) + 1 div batchSize"
    by blast
  then have none: "deliveries (fst (processCharacters flakyNet [goodNode, badNode] ?s)) = []"
    by (simp add: batchSize_def deliveries_def initialState_def)
  from res del c cs st rej none show ?thesis by simp
qed

lemma splitAux_single_plain:
  "c \<notin> set xs \<Longrightarrow> splitAux [c] cur xs = [rev cur @ xs]"
proof (induction xs arbitrary: cur)
  case Nil
  show ?case by (subst splitAux.simps) simp
next
  case (Cons x xs)
  then have "splitAux [c] cur (x # xs) = splitAux [c] (x # cur) xs"
    by (subst splitAux.simps) auto
  with Cons show ?case by simp
qed

lemma splitAux_single_cut:
  "c \<notin> set xs \<Longrightarrow> splitAux [c] cur (xs @ c # ys) = (rev cur @ xs) # splitAux [c] [] ys"
proof (induction xs arbitrary: cur)
  case Nil
  show ?case by (subst splitAux.simps) simp
next
  case (Cons x xs)
  then have "splitAux [c] cur ((x # xs) @ c # ys) = splitAux [c] (x # cur) (xs @ c # ys)"
    by (subst splitAux.simps) auto
  with Cons show ?case by simp
qed

lemma splitOn_join:
  assumes "ts \<noteq> []" and "\<forall>t\<in>set ts. of_char CHR '','' \<notin> set t"
  shows "splitOn (js '','') (join ts) = ts"
  using assms
proof (induction ts rule: join.induct)
  case 1
  then show ?case by simp
next
  case (2 t)
  then show ?case by (simp add: splitOn_def js_def splitAux_single_plain)
next
  case (3 t t' ts)
  then have "splitOn (js '','') (join (t' # ts)) = t' # ts" by simp
  with 3 show ?case by (simp add: splitOn_def js_def splitAux_single_cut)
qed

lemma tagParam_None: "tagParam ts = None \<longleftrightarrow> (\<forall>t\<in>set ts. t = [])"
  by (auto simp: tagParam_def Let_def filter_empty_conv)

lemma tagParam_Some:
  "tagParam ts = Some v \<Longrightarrow> v = take 100 (join (filter (\<lambda>t. t \<noteq> []) ts)) \<and> length v \<le> 100"
  by (auto simp: tagParam_def Let_def slice_def split: if_splits)

lemma tagParam_members:
  assumes "tagParam ts = Some v"
    and "\<forall>t\<in>set ts. of_char CHR '','' \<notin> set t"
    and "length (join (filter (\<lambda>t. t \<noteq> []) ts)) \<le> 100"
  shows "splitOn (js '','') v = filter (\<lambda>t. t \<noteq> []) ts"
proof -
  from assms(1) have ne: "filter (\<lambda>t. t \<noteq> []) ts \<noteq> []"
    by (auto simp: tagParam_def Let_def split: if_splits)
  from tagParam_Some [OF assms(1)] assms(3) have v: "v = join (filter (\<lambda>t. t \<noteq> []) ts)"
    by simp
  from assms(2) have "\<forall>t\<in>set (filter (\<lambda>t. t \<noteq> []) ts). of_char CHR '','' \<notin> set t"
    by simp
  from splitOn_join [OF ne this] v show ?thesis by simp
qed

lemma appendTags_Inr:
  assumes "appendTags enc key ts u = Inr u'"
  shows "\<exists>p. u' = u @ p \<and>
           (case tagParam ts of
              None \<Rightarrow> p = []
            | Some v \<Rightarrow> (\<exists>x. enc v = Inr x \<and> p = key @ x))"
proof (cases "tagParam ts")
  case None
  with assms show ?thesis by (simp add: appendTags_def)
next
  case (Some v)
  with assms obtain x where "enc v = Inr x" and "u' = u @ key @ x"
    by (cases "enc v") (simp_all add: appendTags_def)
  with Some show ?thesis by simp
qed

lemma buildUrl_tags:
  assumes "buildUrl enc cfg opts = Inr u"
  shows "\<exists>base p1 p2.
           buildUrl enc cfg (opts\<lparr>includeTags := [], excludeTags := []\<rparr>) = Inr base \<and>
           u = base @ p1 @ p2 \<and>
           (case tagParam (includeTags opts) of
              None \<Rightarrow> p1 = []
            | Some v \<Rightarrow> (\<exists>x. enc v = Inr x \<and> p1 = js ''&tags='' @ x)) \<and>
           (case tagParam (excludeTags opts) of
              None \<Rightarrow> p2 = []
            | Some v \<Rightarrow> (\<exists>x. enc v = Inr x \<and> p2 = js ''&exclude_tags='' @ x))"
proof -
  from assms obtain tm where t: "searchTermPart enc (searchTerm opts) = Inr tm"
    by (cases "searchTermPart enc (searchTerm opts)") (simp_all add: buildUrl_def)
  with assms obtain u1
    where u1: "appendTags enc (js ''&tags='') (includeTags opts) (baseUrl cfg opts tm) = Inr u1"
      and u: "appendTags enc (js ''&exclude_tags='') (excludeTags opts) u1 = Inr u"
    by (cases "appendTags enc (js ''&tags='') (includeTags opts) (baseUrl cfg opts tm)")
       (simp_all add: buildUrl_def)
  have base: "buildUrl enc cfg (opts\<lparr>includeTags := [], excludeTags := []\<rparr>) =
      Inr (baseUrl cfg opts tm)"
    by (simp add: buildUrl_def t appendTags_def tagParam_def baseUrl_def)
  from appendTags_Inr [OF u1] obtain p1 where p1: "u1 = baseUrl cfg opts tm @ p1"
    "case tagParam (includeTags opts) of
       None \<Rightarrow> p1 = []
     | Some v \<Rightarrow> (\<exists>x. enc v = Inr x \<and> p1 = js ''&tags='' @ x)"
    by blast
  from appendTags_Inr [OF u] obtain p2 where p2: "u = u1 @ p2"
    "case tagParam (excludeTags opts) of
       None \<Rightarrow> p2 = []
     | Some v \<Rightarrow> (\<exists>x. enc v = Inr x \<and> p2 = js ''&exclude_tags='' @ x)"
    by blast
  from p1(1) p2(1) have "u = baseUrl cfg opts tm @ p1 @ p2" by simp
  with base p1(2) p2(2) show ?thesis by blast
qed

text \<open>
  C6, as amended. For each of the two tag lists: the parameter is left out exactly when
  the list holds nothing but empty strings; otherwise its value, before URL encoding,
  is the first 100 code units of the non-empty tags joined by commas, so at most 100
  code units, and when the joined string fits in 100 code units and no tag contains a
  comma, the members of the value are exactly the non-empty tags. When the URL is built
  (no URIError), it is the URL of the same request without tags, followed by \<open>&tags=\<close>
  and \<open>&exclude_tags=\<close> with the encoded values, each present only if its list has a
  non-empty tag.
\<close>

theorem buildUrl_tag_parameters:
  "(tagParam ts = None \<longleftrightarrow> (\<forall>t\<in>set ts. t = [])) \<and>
   (\<forall>v. tagParam ts = Some v \<longrightarrow>
      v = take 100 (join (filter (\<lambda>t. t \<noteq> []) ts)) \<and> length v \<le> 100 \<and>
      ((\<forall>t\<in>set ts. of_char CHR '','' \<notin> set t) \<and>
       length (join (filter (\<lambda>t. t \<noteq> []) ts)) \<le> 100 \<longrightarrow>
         splitOn (js '','') v = filter (\<lambda>t. t \<noteq> []) ts)) \<and>
   (\<forall>u. buildUrl enc cfg opts = Inr u \<longrightarrow>
      (\<exists>base p1 p2.
         buildUrl enc cfg (opts\<lparr>includeTags := [], excludeTags := []\<rparr>) = Inr base \<and>
         u = base @ p1 @ p2 \<and>
         (case tagParam (includeTags opts) of
            None \<Rightarrow> p1 = []
          | Some v \<Rightarrow> (\<exists>x. enc v = Inr x \<and> p1 = js ''&tags='' @ x)) \<and>
         (case tagParam (excludeTags opts) of
            None \<Rightarrow> p2 = []
          | Some v \<Rightarrow> (\<exists>x. enc v = Inr x \<and> p2 = js ''&exclude_tags='' @ x))))"
proof (intro conjI allI impI)
  show "tagParam ts = None \<longleftrightarrow> (\<forall>t\<in>set ts. t = [])"
    by (rule tagParam_None)
next
  fix v assume "tagParam ts = Some v"
  then show "v = take 100 (join (filter (\<lambda>t. t \<noteq> []) ts))" and "length v \<le> 100"
    by (simp_all add: tagParam_Some)
next
  fix v
  assume "tagParam ts = Some v"
    and "(\<forall>t\<in>set ts. of_char CHR '','' \<notin> set t) \<and>
         length (join (filter (\<lambda>t. t \<noteq> []) ts)) \<le> 100"
  then show "splitOn (js '','') v = filter (\<lambda>t. t \<noteq> []) ts"
    by (intro tagParam_members) simp_all
next
  fix u assume "buildUrl enc cfg opts = Inr u"
  then show "\<exists>base p1 p2.
         buildUrl enc cfg (opts\<lparr>includeTags := [], excludeTags := []\<rparr>) = Inr base \<and>
         u = base @ p1 @ p2 \<and>
         (case tagParam (includeTags opts) of
            None \<Rightarrow> p1 = []
          | Some v \<Rightarrow> (\<exists>x. enc v = Inr x \<and> p1 = js ''&tags='' @ x)) \<and>
         (case tagParam (excludeTags opts) of
            None \<Rightarrow> p2 = []
          | Some v \<Rightarrow> (\<exists>x. enc v = Inr x \<and> p2 = js ''&exclude_tags='' @ x))"
    by (rule buildUrl_tags)
qed

lemma longTag_facts:
  "length longTag = 99" "of_char CHR '','' \<notin> set longTag" "longTag \<noteq> []"
  by (auto simp: longTag_def)

text \<open>
  C6 as stated fails at the cut. Two tags without a comma, of 99 code units and of 1:
  the joined string has 101 code units, the value sent is the first tag followed by a
  comma, and its last member is the empty string.
\<close>

theorem tagParam_trailing_comma_counterexample:
  "of_char CHR '','' \<notin> set longTag \<and> of_char CHR '','' \<notin> set (js ''b'') \<and>
   tagParam [longTag, js ''b''] = Some (longTag @ js '','') \<and>
   appendTags Inr (js ''&tags='') [longTag, js ''b''] [] =
     Inr (js ''&tags='' @ longTag @ js '','') \<and>
   splitOn (js '','') (longTag @ js '','') = [longTag, []]"
proof -
  have t: "tagParam [longTag, js ''b''] = Some (longTag @ js '','')"
    using longTag_facts by (simp add: tagParam_def slice_def js_def)
  have s: "splitOn (js '','') (longTag @ js '','') = [longTag, []]"
    using longTag_facts(2)
    by (simp add: splitOn_def js_def splitAux_single_cut splitAux_single_plain)
  have b: "of_char CHR '','' \<notin> set (js ''b'')"
    by (simp add: js_def)
  from t s b longTag_facts(2) show ?thesis
    by (simp add: appendTags_def)
qed

text \<open>
  The amended C6 on the request of the specification: search term \<open>elf\<close>, tags
  \<open>fantasy\<close> and the empty string, nothing excluded, \<open>findCount\<close> 10; \<open>enc\<close> is the
  identity, as \<open>encodeURIComponent\<close> is on letters.
\<close>

theorem buildUrl_tag_parameters_witness:
  "tagParam (includeTags exampleOptions) = Some (js ''fantasy'') \<and>
   length (js ''fantasy'') \<le> 100 \<and>
   splitOn (js '','') (js ''fantasy'') = [js ''fantasy''] \<and>
   tagParam (excludeTags exampleOptions) = None \<and>
   buildUrl Inr defaultSettings exampleOptions =
     Inr (js (''https://api.chub.ai/api/characters/search?search=elf&first=10&page=1'' @
              ''&sort=download_count&asc=false&venus=true&include_forks=true&nsfw=false'' @
              ''&require_images=false&require_custom_prompt=false&tags=fantasy''))"
proof -
  have t: "tagParam (includeTags exampleOptions) = Some (js ''fantasy'')"
    by (simp add: exampleOptions_def tagParam_def slice_def js_def)
  have f: "filter (\<lambda>t. t \<noteq> []) (includeTags exampleOptions) = [js ''fantasy'']"
    by (simp add: exampleOptions_def js_def)
  have hyp: "(\<forall>t\<in>set (includeTags exampleOptions). of_char CHR '','' \<notin> set t) \<and>
      length (join (filter (\<lambda>t. t \<noteq> []) (includeTags exampleOptions))) \<le> 100"
    by (simp add: exampleOptions_def js_def)
  from buildUrl_tag_parameters [where ts = "includeTags exampleOptions"] t hyp
  have "length (js ''fantasy'') \<le> 100"
    and "splitOn (js '','') (js ''fantasy'') = filter (\<lambda>t. t \<noteq> []) (includeTags exampleOptions)"
    by blast+
  moreover have "tagParam (excludeTags exampleOptions) = None"
    by (simp add: exampleOptions_def tagParam_def)
  moreover have "buildUrl Inr defaultSettings exampleOptions =
     Inr (js (''https://api.chub.ai/api/characters/search?search=elf&first=10&page=1'' @
              ''&sort=download_count&asc=false&venus=true&include_forks=true&nsfw=false'' @
              ''&require_images=false&require_custom_prompt=false&tags=fantasy''))"
    by (simp add: buildUrl_def searchTermPart_def baseUrl_def appendTags_def tagParam_def
        slice_def exampleOptions_def defaultSettings_def API_ENDPOINT_SEARCH_def showBool_def
        showNat.simps js_def)
  ultimately show ?thesis using t f by simp
qed

lemma trim_example: "trim (js '' a/b '') = js ''a/b''"
  by (simp add: trim_def isWhiteSpace_def js_def)

lemma fileName_example: "fileNameOf (Some elfDisposition) = Inr (js ''elf.png'')"
  by (simp add: fileNameOf_def elfDisposition_def splitOn_def splitAux.simps js_def)

lemma endpoints_differ: "import_custom \<noteq> importUUID"
  by (simp add: import_custom_def importUUID_def js_def)

text \<open>
  C7, as amended. \<open>downloadCharacter\<close> posts the trimmed input to \<open>importUUID\<close> and, only
  when that request gets a response that is not ok, posts the same payload to
  \<open>import_custom\<close>. When a request is rejected (the first one, or the second one after a
  first response that is not ok), the import rejects and nothing follows: no request, no
  notification, no ingestion. When the last response is not ok, the only further effect is
  the import-failed notification: the ingestion callback is not called. When it is ok and
  its Content-Disposition header yields a file name, exactly one further effect follows:
  one call of the ingestion callback with the file if the declared content type is
  \<open>character\<close>, a warning otherwise.
\<close>

theorem downloadCharacter_sequence:
  "(net (ImportPost importUUID (trim input)) = Rejected \<longrightarrow>
      downloadCharacter net input s =
        (s\<lparr>trace := trace s @ [Fetch (ImportPost importUUID (trim input))]\<rparr>,
         Inl NetworkError)) \<and>
   (\<forall>r1. net (ImportPost importUUID (trim input)) = Resolved r1 \<and> \<not> ok r1 \<and>
         net (ImportPost import_custom (trim input)) = Rejected \<longrightarrow>
      downloadCharacter net input s =
        (s\<lparr>trace := trace s @ [Fetch (ImportPost importUUID (trim input)),
                                 Fetch (ImportPost import_custom (trim input))]\<rparr>,
         Inl NetworkError)) \<and>
   (\<forall>r1 r2. net (ImportPost importUUID (trim input)) = Resolved r1 \<and>
         (\<not> ok r1 \<longrightarrow> net (ImportPost import_custom (trim input)) = Resolved r2) \<longrightarrow>
      (let posts = (if ok r1 then [Fetch (ImportPost importUUID (trim input))]
                    else [Fetch (ImportPost importUUID (trim input)),
                          Fetch (ImportPost import_custom (trim input))]);
           r = (if ok r1 then r1 else r2)
       in (\<not> ok r \<longrightarrow>
             downloadCharacter net input s =
               (s\<lparr>trace := trace s @ posts @ [ToastInfo]\<rparr>, Inr ())) \<and>
          (ok r \<longrightarrow>
             (\<forall>fileName. fileNameOf (contentDisposition r) = Inr fileName \<longrightarrow>
                downloadCharacter net input s =
                  (s\<lparr>trace := trace s @ posts @
                       [if customContentType r = Some (js ''character'')
                        then ProcessDroppedFiles [File (body r) fileName (blob_type (body r))]
                        else ToastWarning]\<rparr>, Inr ())))))"
proof (intro conjI allI impI)
  assume "net (ImportPost importUUID (trim input)) = Rejected"
  then show "downloadCharacter net input s =
        (s\<lparr>trace := trace s @ [Fetch (ImportPost importUUID (trim input))]\<rparr>,
         Inl NetworkError)"
    by (simp add: downloadCharacter_def emit_def Let_def)
next
  fix r1
  assume "net (ImportPost importUUID (trim input)) = Resolved r1 \<and> \<not> ok r1 \<and>
         net (ImportPost import_custom (trim input)) = Rejected"
  then show "downloadCharacter net input s =
        (s\<lparr>trace := trace s @ [Fetch (ImportPost importUUID (trim input)),
                                 Fetch (ImportPost import_custom (trim input))]\<rparr>,
         Inl NetworkError)"
    by (simp add: downloadCharacter_def emit_def Let_def)
next
  fix r1 r2
  assume "net (ImportPost importUUID (trim input)) = Resolved r1 \<and>
         (\<not> ok r1 \<longrightarrow> net (ImportPost import_custom (trim input)) = Resolved r2)"
  then show "let posts = (if ok r1 then [Fetch (ImportPost importUUID (trim input))]
                    else [Fetch (ImportPost importUUID (trim input)),
                          Fetch (ImportPost import_custom (trim input))]);
           r = (if ok r1 then r1 else r2)
       in (\<not> ok r \<longrightarrow>
             downloadCharacter net input s =
               (s\<lparr>trace := trace s @ posts @ [ToastInfo]\<rparr>, Inr ())) \<and>
          (ok r \<longrightarrow>
             (\<forall>fileName. fileNameOf (contentDisposition r) = Inr fileName \<longrightarrow>
                downloadCharacter net input s =
                  (s\<lparr>trace := trace s @ posts @
                       [if customContentType r = Some (js ''character'')
                        then ProcessDroppedFiles [File (body r) fileName (blob_type (body r))]
                        else ToastWarning]\<rparr>, Inr ())))"
    by (cases "ok r1") (simp_all add: downloadCharacter_def emit_def Let_def)
qed

text \<open>
  C7 as stated fails when a request is rejected. The primary endpoint answers 500 and
  the request to the legacy endpoint is rejected: both endpoints have failed, the import
  rejects, and no import-failed notification is shown.
\<close>

theorem downloadCharacter_rejected_counterexample:
  "\<not> succeeded (legacyDown (ImportPost importUUID (js ''a/b''))) \<and>
   \<not> succeeded (legacyDown (ImportPost import_custom (js ''a/b''))) \<and>
   downloadCharacter legacyDown (js '' a/b '') (initialState None) =
     ((initialState None)\<lparr>trace := [Fetch (ImportPost importUUID (js ''a/b'')),
                                      Fetch (ImportPost import_custom (js ''a/b''))]\<rparr>,
      Inl NetworkError)"
  using endpoints_differ
  by (simp add: downloadCharacter_def emit_def Let_def trim_example legacyDown_def
      succeeded_def plainResponse_def initialState_def)

text \<open>
  Why the amended C7 asks for a file name: a 200 with content type \<open>character\<close> and no
  Content-Disposition header throws a TypeError where the file name is read, before the
  ingestion callback.
\<close>

lemma downloadCharacter_no_filename:
  "\<not> ok (plainResponse False 500 []) \<and> status (plainResponse False 500 []) = 500 \<and>
   ok (characterResponse None) \<and> status (characterResponse None) = 200 \<and>
   customContentType (characterResponse None) = Some (js ''character'') \<and>
   downloadCharacter (importNet None) (js '' a/b '') (initialState None) =
     ((initialState None)\<lparr>trace := [Fetch (ImportPost importUUID (js ''a/b'')),
                                      Fetch (ImportPost import_custom (js ''a/b''))]\<rparr>,
      Inl TypeError)"
  using endpoints_differ
  by (simp add: downloadCharacter_def emit_def Let_def trim_example importNet_def
      plainResponse_def characterResponse_def fileNameOf_def initialState_def)

text \<open>
  The amended C7 on the case of the specification: 500 from the primary endpoint, 200
  with content type \<open>character\<close> and a file name from the legacy endpoint. One call of the
  ingestion callback.
\<close>

theorem downloadCharacter_sequence_witness:
  "importNet (Some elfDisposition) (ImportPost importUUID (trim (js '' a/b ''))) =
     Resolved (plainResponse False 500 []) \<and>
   \<not> ok (plainResponse False 500 []) \<and>
   importNet (Some elfDisposition) (ImportPost import_custom (trim (js '' a/b ''))) =
     Resolved (characterResponse (Some elfDisposition)) \<and>
   ok (characterResponse (Some elfDisposition)) \<and>
   downloadCharacter (importNet (Some elfDisposition)) (js '' a/b '') (initialState None) =
     ((initialState None)\<lparr>trace :=
        [Fetch (ImportPost importUUID (js ''a/b'')),
         Fetch (ImportPost import_custom (js ''a/b'')),
         ProcessDroppedFiles
           [File (Blob (js ''image/png'') [0x89, 0x50]) (js ''elf.png'') (js ''image/png'')]]\<rparr>,
      Inr ())"
proof -
  let ?net = "importNet (Some elfDisposition)"
  have h1: "?net (ImportPost importUUID (trim (js '' a/b ''))) =
      Resolved (plainResponse False 500 [])"
    by (simp add: importNet_def)
  have h2: "\<not> ok (plainResponse False 500 []) \<longrightarrow>
      ?net (ImportPost import_custom (trim (js '' a/b ''))) =
      Resolved (characterResponse (Some elfDisposition))"
    using endpoints_differ by (simp add: importNet_def)
  have n: "\<not> ok (plainResponse False 500 [])"
    by (simp add: plainResponse_def)
  have k: "ok (characterResponse (Some elfDisposition))"
    by (simp add: characterResponse_def)
  have f: "fileNameOf (contentDisposition (characterResponse (Some elfDisposition))) =
      Inr (js ''elf.png'')"
    by (simp add: characterResponse_def fileName_example)
  from downloadCharacter_sequence
         [where net = ?net and input = "js '' a/b ''" and s = "initialState None"]
       h1 h2
  have "let posts = (if ok (plainResponse False 500 [])
                      then [Fetch (ImportPost importUUID (trim (js '' a/b '')))]
                      else [Fetch (ImportPost importUUID (trim (js '' a/b ''))),
                            Fetch (ImportPost import_custom (trim (js '' a/b '')))]);
             r = (if ok (plainResponse False 500 []) then plainResponse False 500 []
                  else characterResponse (Some elfDisposition))
         in (\<not> ok r \<longrightarrow>
               downloadCharacter ?net (js '' a/b '') (initialState None) =
                 ((initialState None)\<lparr>trace := trace (initialState None) @ posts @ [ToastInfo]\<rparr>,
                  Inr ())) \<and>
            (ok r \<longrightarrow>
               (\<forall>fileName. fileNameOf (contentDisposition r) = Inr fileName \<longrightarrow>
                  downloadCharacter ?net (js '' a/b '') (initialState None) =
                    ((initialState None)\<lparr>trace := trace (initialState None) @ posts @
                         [if customContentType r = Some (js ''character'')
                          then ProcessDroppedFiles [File (body r) fileName (blob_type (body r))]
                          else ToastWarning]\<rparr>, Inr ())))"
    by blast
  with n k f h1 h2 show ?thesis
    by (simp add: Let_def trim_example characterResponse_def initialState_def)
qed












lemma guarded_noop:
  "isLoading (now sys) \<Longrightarrow> scrollHandler enc cfg nearBottom params sys = sys"
  "isLoading (now sys) \<Longrightarrow> executeCharacterSearchDebounced enc cfg opts sys = sys"
  by (simp_all add: scrollHandler_def executeCharacterSearchDebounced_def)





lemma handleSearch_issues:
  assumes "buildUrl enc cfg (opts\<lparr>page := Some 1\<rparr>) = Inr u"
  shows "handleSearch enc cfg opts sys =
     sys\<lparr>now := emit (Fetch (SearchGet u))
                 (dropDetached ((now sys)\<lparr>isLoading := False, currentPage := 1,
                                          hasMoreResults := True\<rparr>)),
         pending := pending sys @ [\<lparr>op_guarded = False, op_append = False\<rparr>]\<rparr>"
  using assms
  by (simp add: handleSearch_def launch_def execBegin_def resetPagination_def Let_def)

lemma scrollHandler_issues:
  assumes "\<not> isLoading (now sys)" and "hasMoreResults (now sys)"
    and "characterListContainer (now sys) \<noteq> None"
    and "buildUrl enc cfg (params\<lparr>page := Some (currentPage (now sys) + 1)\<rparr>) = Inr u"
  shows "scrollHandler enc cfg True params sys =
     sys\<lparr>now := emit (Fetch (SearchGet u))
                 (dropDetached ((now sys)\<lparr>isLoading := True,
                                          currentPage := currentPage (now sys) + 1\<rparr>)),
         pending := pending sys @ [\<lparr>op_guarded = True, op_append = True\<rparr>]\<rparr>"
  using assms
  by (auto simp: scrollHandler_def launch_def execBegin_def resetPagination_def Let_def)

lemma requests_emit [simp]:
  "requests (emit (Fetch r) s) = requests s @ [r]"
  by (simp add: requests_def emit_def)

lemma requests_dropDetached [simp]: "requests (dropDetached s) = requests s"
  by (simp add: requests_def)

lemma requests_fields [simp]:
  "requests (s\<lparr>currentPage := p\<rparr>) = requests s"
  "requests (s\<lparr>hasMoreResults := h\<rparr>) = requests s"
  "requests (s\<lparr>isLoading := l\<rparr>) = requests s"
  by (simp_all add: requests_def)

text \<open>The first scroll to the bottom of a fresh list: a guarded load of page 2 in flight.\<close>

lemma scroll_example:
  "\<exists>u. scrollHandler Inr defaultSettings True exampleOptions (initialSystem (Some someContainer)) =
     \<lparr>now = (initialState (Some someContainer))
              \<lparr>isLoading := True, currentPage := 2, trace := [Fetch (SearchGet u)]\<rparr>,
      pending = [\<lparr>op_guarded = True, op_append = True\<rparr>]\<rparr>"
proof -
  let ?sys = "initialSystem (Some someContainer)"
  obtain u where u: "buildUrl Inr defaultSettings
      (exampleOptions\<lparr>page := Some (currentPage (now ?sys) + 1)\<rparr>) = Inr u"
    using buildUrl_plain by blast
  have "scrollHandler Inr defaultSettings True exampleOptions ?sys =
     \<lparr>now = (initialState (Some someContainer))
              \<lparr>isLoading := True, currentPage := 2, trace := [Fetch (SearchGet u)]\<rparr>,
      pending = [\<lparr>op_guarded = True, op_append = True\<rparr>]\<rparr>"
    by (subst scrollHandler_issues [OF _ _ _ u])
       (simp_all add: initialSystem_def initialState_def emit_def dropDetached_def
          someContainer_def)
  then show ?thesis by blast
qed

lemma execResume_outcome:
  "snd (execResume cfg net app sr s) = Inr () \<or> (\<exists>e. snd (execResume cfg net app sr s) = Inl e)"
  by (cases "snd (execResume cfg net app sr s)") simp_all



lemma loadingMore_eq:
  "\<exists>u. loadingMore =
     \<lparr>now = (initialState (Some someContainer))
              \<lparr>isLoading := True, currentPage := 2, trace := [Fetch (SearchGet u)]\<rparr>,
      pending = [\<lparr>op_guarded = True, op_append = True\<rparr>]\<rparr>"
  unfolding loadingMore_def by (rule scroll_example)




lemma single_batch: "batches [n] = [[n]]"
  by (simp add: batches_def batchesFrom.simps [of 0] batchesFrom.simps [of 20]
      slice_def batchSize_def)

lemma searchWhileLoading_eq:
  "\<exists>u u'. handleSearch Inr defaultSettings exampleOptions loadingMore =
     \<lparr>now = (initialState (Some someContainer))
              \<lparr>isLoading := False, currentPage := 1,
               trace := [Fetch (SearchGet u), Fetch (SearchGet u')]\<rparr>,
      pending = [\<lparr>op_guarded = True, op_append = True\<rparr>,
                 \<lparr>op_guarded = False, op_append = False\<rparr>]\<rparr>"
proof -
  from loadingMore_eq obtain u where e: "loadingMore =
     \<lparr>now = (initialState (Some someContainer))
              \<lparr>isLoading := True, currentPage := 2, trace := [Fetch (SearchGet u)]\<rparr>,
      pending = [\<lparr>op_guarded = True, op_append = True\<rparr>]\<rparr>"
    by blast
  obtain u' where u': "buildUrl Inr defaultSettings (exampleOptions\<lparr>page := Some 1\<rparr>) = Inr u'"
    using buildUrl_plain by blast
  have "handleSearch Inr defaultSettings exampleOptions loadingMore =
     \<lparr>now = (initialState (Some someContainer))
              \<lparr>isLoading := False, currentPage := 1,
               trace := [Fetch (SearchGet u), Fetch (SearchGet u')]\<rparr>,
      pending = [\<lparr>op_guarded = True, op_append = True\<rparr>,
                 \<lparr>op_guarded = False, op_append = False\<rparr>]\<rparr>"
    by (subst handleSearch_issues [OF u'])
       (simp add: e initialState_def emit_def dropDetached_def someContainer_def)
  then show ?thesis by blast
qed

text \<open>
  C4: the code at a search that is asked for while another one is loading. A scroll has
  started a load of page 2, so \<open>isLoading\<close> is true and one request is out. A further
  scroll and a call of \<open>executeCharacterSearchDebounced\<close> change nothing. \<open>handleSearch\<close>
  with the same options clears \<open>isLoading\<close>, resets the page to 1 and sends a second
  request, so two searches are in flight. When the new search and then the older load
  complete, the older load appends its page to the view of the new search and
  \<open>chubCharacters\<close> holds the page of the older load.
\<close>

theorem handleSearch_while_loading:
  "isLoading (now loadingMore) \<and>
   currentPage (now loadingMore) = 2 \<and>
   length (pending loadingMore) = 1 \<and>
   length (requests (now loadingMore)) = 1 \<and>
   scrollHandler Inr defaultSettings True exampleOptions loadingMore = loadingMore \<and>
   executeCharacterSearchDebounced Inr defaultSettings exampleOptions loadingMore = loadingMore \<and>
   \<not> isLoading (now (handleSearch Inr defaultSettings exampleOptions loadingMore)) \<and>
   currentPage (now (handleSearch Inr defaultSettings exampleOptions loadingMore)) = 1 \<and>
   pending (handleSearch Inr defaultSettings exampleOptions loadingMore) =
     [\<lparr>op_guarded = True, op_append = True\<rparr>, \<lparr>op_guarded = False, op_append = False\<rparr>] \<and>
   length (requests (now (handleSearch Inr defaultSettings exampleOptions loadingMore))) = 2 \<and>
   chubCharacters (now (run Inr defaultSettings okNet
       [Complete 1 (SearchNodes [goodNode]), Complete 0 (SearchNodes [badNode])]
       (handleSearch Inr defaultSettings exampleOptions loadingMore))) =
     [exampleCharacter badNode] \<and>
   characterListContainer (now (run Inr defaultSettings okNet
       [Complete 1 (SearchNodes [goodNode]), Complete 0 (SearchNodes [badNode])]
       (handleSearch Inr defaultSettings exampleOptions loadingMore))) =
     Some \<lparr>inDom = True,
           items = [Card (exampleCharacter goodNode), Card (exampleCharacter badNode),
                    Card (exampleCharacter badNode)]\<rparr>"
proof -
  from loadingMore_eq obtain u where e: "loadingMore =
     \<lparr>now = (initialState (Some someContainer))
              \<lparr>isLoading := True, currentPage := 2, trace := [Fetch (SearchGet u)]\<rparr>,
      pending = [\<lparr>op_guarded = True, op_append = True\<rparr>]\<rparr>"
    by blast
  from searchWhileLoading_eq obtain v v'
    where h: "handleSearch Inr defaultSettings exampleOptions loadingMore =
     \<lparr>now = (initialState (Some someContainer))
              \<lparr>isLoading := False, currentPage := 1,
               trace := [Fetch (SearchGet v), Fetch (SearchGet v')]\<rparr>,
      pending = [\<lparr>op_guarded = True, op_append = True\<rparr>,
                 \<lparr>op_guarded = False, op_append = False\<rparr>]\<rparr>"
    by blast
  have l: "isLoading (now loadingMore)"
    by (simp add: e)
  have before: "currentPage (now loadingMore) = 2" "length (pending loadingMore) = 1"
      "length (requests (now loadingMore)) = 1"
    by (simp_all add: e requests_def)
  have noop: "scrollHandler Inr defaultSettings True exampleOptions loadingMore = loadingMore"
      "executeCharacterSearchDebounced Inr defaultSettings exampleOptions loadingMore = loadingMore"
    using l by (simp_all add: guarded_noop)
  have after: "\<not> isLoading (now (handleSearch Inr defaultSettings exampleOptions loadingMore))"
      "currentPage (now (handleSearch Inr defaultSettings exampleOptions loadingMore)) = 1"
      "pending (handleSearch Inr defaultSettings exampleOptions loadingMore) =
         [\<lparr>op_guarded = True, op_append = True\<rparr>, \<lparr>op_guarded = False, op_append = False\<rparr>]"
      "length (requests (now (handleSearch Inr defaultSettings exampleOptions loadingMore))) = 2"
    by (simp_all add: h requests_def)
  have fin: "chubCharacters (now (run Inr defaultSettings okNet
       [Complete 1 (SearchNodes [goodNode]), Complete 0 (SearchNodes [badNode])]
       (handleSearch Inr defaultSettings exampleOptions loadingMore))) =
     [exampleCharacter badNode]"
    "characterListContainer (now (run Inr defaultSettings okNet
       [Complete 1 (SearchNodes [goodNode]), Complete 0 (SearchNodes [badNode])]
       (handleSearch Inr defaultSettings exampleOptions loadingMore))) =
     Some \<lparr>inDom = True,
           items = [Card (exampleCharacter goodNode), Card (exampleCharacter badNode),
                    Card (exampleCharacter badNode)]\<rparr>"
    unfolding h
    by (simp_all add: completeOp_def execResume_def fetchResume_def processCharacters_def
        single_batch startAll_def getCharacterBegin_def getCharacterResume_def okNet_def
        plainResponse_def updateCharacterListInView_def emit_def runFinally_def
        initialState_def someContainer_def exampleCharacter_def defaultSettings_def Let_def)
  from l before noop after fin show ?thesis by blast
qed

end
